theory Spec2Isabelle
  imports Main "HOL-Library.Word" "HOL-Library.AList"
begin

unbundle bit_operations_syntax

section \<open>Python values and exceptions\<close>

text \<open>
  The values \<open>json.loads\<close> returns, and the values bound as statement parameters and
  stored as node properties. A dict is an association list read through \<open>map_of\<close>; a
  finite float is \<open>PFloat m e\<close>, standing for \<open>m * 2 ^ e\<close>. A Python \<open>str\<close> is a
  \<open>string\<close> whose characters are the code points below 256.
\<close>

datatype pyval =
    PNone
  | PBool bool
  | PInt int
  | PFloat int int
  | PStr string
  | PList "pyval list"
  | PDict "(string \<times> pyval) list"

text \<open>
  The exceptions an invocation can end with. \<open>PathFormatError\<close> stands for the four
  \<open>raise ValueError\<close> sites of the path checks (lines 139, 156, 160, 171),
  \<open>TurnSchemaError\<close> for the one of the validation loop (line 181) and
  \<open>IntLiteralError\<close> for the \<open>ValueError\<close> that \<open>int()\<close> itself raises on a
  string it cannot read. \<open>GraphStoreError\<close> is any exception of the Neo4j driver.
\<close>

datatype error =
    PathFormatError
  | TurnSchemaError
  | IntLiteralError
  | TypeError
  | KeyError
  | FileError
  | GraphStoreError

section \<open>String helpers of the Python library\<close>

definition is_decimal :: "char \<Rightarrow> bool" where
  "is_decimal c = (48 \<le> (of_char c :: nat) \<and> (of_char c :: nat) \<le> 57)"

text \<open>
  \<open>str.isdigit\<close> on one character: the decimal digits and, below code point 256, the
  superscript digits U+00B2, U+00B3 and U+00B9.
\<close>

definition py_isdigit :: "char \<Rightarrow> bool" where
  "py_isdigit c = (is_decimal c \<or> (of_char c :: nat) \<in> {178, 179, 185})"

definition str_isdigit :: "string \<Rightarrow> bool" where
  "str_isdigit s = (s \<noteq> [] \<and> list_all py_isdigit s)"

definition digits_value :: "string \<Rightarrow> int" where
  "digits_value s = foldl (\<lambda>a c. 10 * a + (int (of_char c) - 48)) 0 s"

text \<open>
  \<open>int(s)\<close> for the strings the importer passes to it, which hold only characters
  accepted by \<open>str.isdigit\<close>: it reads a non-empty run of decimal digits and raises
  \<open>ValueError\<close> on anything else.
\<close>

definition py_int :: "string \<Rightarrow> error + int" where
  "py_int s = (if s \<noteq> [] \<and> list_all is_decimal s then Inr (digits_value s)
               else Inl IntLiteralError)"

text \<open>\<open>int(''.join(ch for ch in name if ch.isdigit()) or 0)\<close>\<close>

definition digits_or_zero :: "string \<Rightarrow> error + int" where
  "digits_or_zero name =
     (let ds = filter py_isdigit name in if ds = [] then Inr 0 else py_int ds)"

definition startswith :: "string \<Rightarrow> string \<Rightarrow> bool" where
  "startswith s p = (take (length p) s = p)"

definition endswith :: "string \<Rightarrow> string \<Rightarrow> bool" where
  "endswith s p = (length p \<le> length s \<and> drop (length s - length p) s = p)"

fun split_sep :: "char \<Rightarrow> string \<Rightarrow> string list" where
  "split_sep c [] = [[]]"
| "split_sep c (x # xs) =
     (if x = c then [] # split_sep c xs
      else (case split_sep c xs of
              [] \<Rightarrow> [[x]]
            | y # ys \<Rightarrow> (x # y) # ys))"

text \<open>
  \<open>pathlib.Path(p).parts\<close> on a POSIX system: the root (\<open>/\<close>, or \<open>//\<close> for exactly
  two leading slashes) is a part of its own, empty components and \<open>.\<close> are dropped.
\<close>

definition path_root :: "string \<Rightarrow> string" where
  "path_root p =
     (if take 1 p \<noteq> ''/'' then []
      else if take 1 (drop 1 p) \<noteq> ''/'' \<or> take 1 (drop 2 p) = ''/'' then ''/''
      else ''//'')"

definition path_parts :: "string \<Rightarrow> string list" where
  "path_parts p =
     (let root = path_root p;
          tail = filter (\<lambda>x. x \<noteq> [] \<and> x \<noteq> ''.'') (split_sep CHR ''/'' (drop (length root) p))
      in if root = [] then tail else root # tail)"

section \<open>Catalog coordinates from the path\<close>

record coords =
  program_name :: string
  program_seq :: int
  module_seq :: int
  day_seq :: int
  persona_name :: string
  persona_seq :: int

text \<open>
  Lines 130 to 175 of \<open>import_file\<close>, in the order of the source: the length check, the
  program key, the two folder checks, the two folder numbers, the extension check, the
  persona key.
\<close>

definition parse_path :: "string \<Rightarrow> error + coords" where
  "parse_path json_file_path =
     (let paths_list = path_parts json_file_path; n = length paths_list in
      if n < 4 then Inl PathFormatError
      else
        let program = paths_list ! (n - 4);
            module_folder = paths_list ! (n - 3);
            day_folder = paths_list ! (n - 2);
            file_name = paths_list ! (n - 1)
        in
        case digits_or_zero program of
          Inl e \<Rightarrow> Inl e
        | Inr pseq \<Rightarrow>
            if \<not> (startswith module_folder ''Module'' \<and> str_isdigit (drop 6 module_folder))
            then Inl PathFormatError
            else if \<not> (startswith day_folder ''Day'' \<and> str_isdigit (drop 3 day_folder))
            then Inl PathFormatError
            else
              case py_int (drop 6 module_folder) of
                Inl e \<Rightarrow> Inl e
              | Inr mseq \<Rightarrow>
                  case py_int (drop 3 day_folder) of
                    Inl e \<Rightarrow> Inl e
                  | Inr dseq \<Rightarrow>
                      if \<not> endswith file_name ''.json'' then Inl PathFormatError
                      else
                        let persona = take (length file_name - 5) file_name in
                        case digits_or_zero persona of
                          Inl e \<Rightarrow> Inl e
                        | Inr perseq \<Rightarrow>
                            Inr \<lparr>program_name = program, program_seq = pseq,
                                 module_seq = mseq, day_seq = dseq,
                                 persona_name = persona, persona_seq = perseq\<rparr>)"

section \<open>Turn records\<close>

text \<open>
  The model \<open>validJSON\<close> declares \<open>role: str\<close>, \<open>text: str\<close>,
  \<open>seq: Optional[int] = None\<close> and ignores every other key. A \<open>str\<close> field takes a
  string only. An \<open>int\<close> field takes an integer and a boolean, and takes no list, no
  dict and no string without a decimal digit. Which floats and which other strings it
  converts to an integer is the validation library's rule, not the repository's: it is
  the parameter \<open>lax\<close>, and no theorem below depends on what it answers.
\<close>

definition str_ok :: "pyval \<Rightarrow> bool" where
  "str_ok v = (case v of PStr _ \<Rightarrow> True | _ \<Rightarrow> False)"

definition int_ok :: "(pyval \<Rightarrow> bool) \<Rightarrow> pyval \<Rightarrow> bool" where
  "int_ok lax v =
     (case v of
        PInt _ \<Rightarrow> True
      | PBool _ \<Rightarrow> True
      | PFloat m e \<Rightarrow> lax v
      | PStr s \<Rightarrow> list_ex is_decimal s \<and> lax v
      | _ \<Rightarrow> False)"

definition validJSON :: "(pyval \<Rightarrow> bool) \<Rightarrow> (string \<times> pyval) list \<Rightarrow> bool" where
  "validJSON lax item =
     ((case map_of item ''role'' of None \<Rightarrow> False | Some v \<Rightarrow> str_ok v) \<and>
      (case map_of item ''text'' of None \<Rightarrow> False | Some v \<Rightarrow> str_ok v) \<and>
      (case map_of item ''seq'' of None \<Rightarrow> True | Some v \<Rightarrow> v = PNone \<or> int_ok lax v))"

text \<open>\<open>for item in script_contents\<close>: what iterating the parsed payload yields.\<close>

definition py_iter :: "pyval \<Rightarrow> error + pyval list" where
  "py_iter v =
     (case v of
        PList xs \<Rightarrow> Inr xs
      | PDict kvs \<Rightarrow> Inr (map (\<lambda>kv. PStr (fst kv)) kvs)
      | PStr s \<Rightarrow> Inr (map (\<lambda>c. PStr [c]) s)
      | _ \<Rightarrow> Inl TypeError)"

text \<open>
  Lines 177 to 181: \<open>validJSON(**item)\<close> raises \<open>TypeError\<close> when the item is not a
  mapping; a \<open>pydantic.ValidationError\<close> is turned into the \<open>ValueError\<close> of line 181.
\<close>

fun validate_items :: "(pyval \<Rightarrow> bool) \<Rightarrow> pyval list \<Rightarrow> error + unit" where
  "validate_items lax [] = Inr ()"
| "validate_items lax (PDict item # rest) =
     (if validJSON lax item then validate_items lax rest else Inl TurnSchemaError)"
| "validate_items lax (_ # rest) = Inl TypeError"

text \<open>\<open>turn_item["role"]\<close>\<close>

definition subscript :: "pyval \<Rightarrow> string \<Rightarrow> error + pyval" where
  "subscript item k =
     (case item of
        PDict kvs \<Rightarrow> (case map_of kvs k of None \<Rightarrow> Inl KeyError | Some v \<Rightarrow> Inr v)
      | _ \<Rightarrow> Inl TypeError)"

section \<open>Identifiers\<close>

text \<open>A UUID is its 128-bit integer; \<open>str\<close> prints 32 hex digits in groups 8-4-4-4-12.\<close>

type_synonym uuid = "128 word"

definition hex_digit :: "nat \<Rightarrow> char" where
  "hex_digit n = ''0123456789abcdef'' ! n"

definition hex32 :: "uuid \<Rightarrow> string" where
  "hex32 u = map (\<lambda>i. hex_digit (unat (drop_bit (4 * (31 - i)) u AND 15))) [0..<32]"

definition str_uuid :: "uuid \<Rightarrow> string" where
  "str_uuid u =
     (let h = hex32 u in
      take 8 h @ ''-'' @ take 4 (drop 8 h) @ ''-'' @ take 4 (drop 12 h) @ ''-'' @
      take 4 (drop 16 h) @ ''-'' @ drop 20 h)"

text \<open>The version field of a UUID, \<open>(int >> 76) & 0xf\<close>.\<close>

definition uuid_version :: "uuid \<Rightarrow> nat" where
  "uuid_version u = unat (drop_bit 76 u AND 15)"

text \<open>The value of a hex digit, to read a printed UUID back.\<close>

definition hex_val :: "char \<Rightarrow> nat" where
  "hex_val c = (if of_char c < (58::nat) then of_char c - 48 else of_char c - 87)"

section \<open>The graph store\<close>

text \<open>
  A node is its label and its properties; a node's identity is its position in the node
  list (nodes are never deleted). An edge joins two positions.
\<close>

record node =
  n_label :: string
  n_props :: "(string \<times> pyval) list"

record edge =
  e_src :: nat
  e_rel :: string
  e_dst :: nat

record graph =
  g_nodes :: "node list"
  g_edges :: "edge list"

definition empty_graph :: graph where
  "empty_graph = \<lparr>g_nodes = [], g_edges = []\<rparr>"

text \<open>
  The two shapes of statement the importer issues. A property value in a pattern is a
  bound parameter or literal, or the call \<open>timestamp()\<close>.
\<close>

datatype pexpr = Lit pyval | Timestamp

type_synonym pattern = "(string \<times> pexpr) list"

datatype stmt =
    MergeNode string pattern pattern
  | MatchMergeRel string pattern string string pattern

definition eval_pattern :: "int \<Rightarrow> pattern \<Rightarrow> (string \<times> pyval) list" where
  "eval_pattern now pat =
     map (\<lambda>(k, e). (k, (case e of Lit v \<Rightarrow> v | Timestamp \<Rightarrow> PInt now))) pat"

definition node_matches :: "string \<Rightarrow> (string \<times> pyval) list \<Rightarrow> node \<Rightarrow> bool" where
  "node_matches l pat n =
     (n_label n = l \<and> list_all (\<lambda>(k, v). map_of (n_props n) k = Some v) pat)"

definition set_props :: "(string \<times> pyval) list \<Rightarrow> (string \<times> pyval) list \<Rightarrow> (string \<times> pyval) list" where
  "set_props sets ps = fold (\<lambda>(k, v). AList.update k v) sets ps"

text \<open>
  \<open>MERGE (n:L {pat}) SET n.k = v\<close>: every node that matches the pattern gets the SET
  properties; when none matches, a node with the pattern's properties is created first.
\<close>

definition merge_node :: "string \<Rightarrow> (string \<times> pyval) list \<Rightarrow> (string \<times> pyval) list \<Rightarrow> graph \<Rightarrow> graph" where
  "merge_node l pat sets g =
     (if list_ex (node_matches l pat) (g_nodes g)
      then g\<lparr>g_nodes := map (\<lambda>n. if node_matches l pat n
                                   then n\<lparr>n_props := set_props sets (n_props n)\<rparr> else n)
                              (g_nodes g)\<rparr>
      else g\<lparr>g_nodes := g_nodes g @ [\<lparr>n_label = l, n_props = set_props sets pat\<rparr>]\<rparr>)"

text \<open>\<open>MATCH (n:L {pat})\<close>: the positions of the matching nodes, counted from \<open>i\<close>.\<close>

fun match_from :: "nat \<Rightarrow> string \<Rightarrow> (string \<times> pyval) list \<Rightarrow> node list \<Rightarrow> nat list" where
  "match_from i l pat [] = []"
| "match_from i l pat (n # ns) =
     (if node_matches l pat n then i # match_from (Suc i) l pat ns
      else match_from (Suc i) l pat ns)"

definition match_idx :: "string \<Rightarrow> (string \<times> pyval) list \<Rightarrow> node list \<Rightarrow> nat list" where
  "match_idx l pat ns = match_from 0 l pat ns"

definition add_edge :: "edge \<Rightarrow> edge list \<Rightarrow> edge list" where
  "add_edge e es = (if e \<in> set es then es else es @ [e])"

text \<open>
  \<open>MATCH (a:La {pa}), (b:Lb {pb}) MERGE (a)-[:R]->(b)\<close>: for every pair of matches,
  the edge is created unless it exists.
\<close>

definition merge_rel :: "string \<Rightarrow> (string \<times> pyval) list \<Rightarrow> string \<Rightarrow> string \<Rightarrow> (string \<times> pyval) list \<Rightarrow> graph \<Rightarrow> graph" where
  "merge_rel la pa r lb pb g =
     g\<lparr>g_edges :=
         fold add_edge
           (concat (map (\<lambda>a. map (\<lambda>b. \<lparr>e_src = a, e_rel = r, e_dst = b\<rparr>)
                                  (match_idx lb pb (g_nodes g)))
                        (match_idx la pa (g_nodes g))))
           (g_edges g)\<rparr>"

fun exec :: "int \<Rightarrow> stmt \<Rightarrow> graph \<Rightarrow> graph" where
  "exec now (MergeNode l pat sets) g =
     merge_node l (eval_pattern now pat) (eval_pattern now sets) g"
| "exec now (MatchMergeRel la pa r lb pb) g =
     merge_rel la (eval_pattern now pa) r lb (eval_pattern now pb) g"

section \<open>The world of an invocation\<close>

text \<open>
  What the importer reads from outside: the UUID generators (the value of the k-th
  call), the store's clock and failures (by the number of statements issued so far),
  whether the store can be reached, the parsed content of a file, and the validation
  library's rule for converting a float or a string to an integer. The world holds
  the store, every statement passed to \<open>session.run\<close> so far, the number of
  identifiers drawn, for every \<open>uuid1\<close> value drawn the number of statements that had
  been issued when it was drawn, and the sessions and drivers that are open.
\<close>

record env =
  uuid1_gen :: "nat \<Rightarrow> uuid"
  uuid4_gen :: "nat \<Rightarrow> uuid"
  clock :: "nat \<Rightarrow> int"
  stmt_fails :: "nat \<Rightarrow> bool"
  reachable :: bool
  read_json :: "string \<Rightarrow> error + pyval"
  lax_int :: "pyval \<Rightarrow> bool"

record world =
  store :: graph
  issued :: "stmt list"
  n_uuid1 :: nat
  uuid1_drawn_at :: "nat list"
  n_uuid4 :: nat
  sessions_open :: nat
  drivers_open :: nat

text \<open>
  \<open>start_neo4j_session\<close>: the driver is created, connectivity is verified (which
  raises when the store is unreachable), the session is opened.
\<close>

definition start_neo4j_session :: "env \<Rightarrow> world \<Rightarrow> (error + unit) \<times> world" where
  "start_neo4j_session E w =
     (let w1 = w\<lparr>drivers_open := Suc (drivers_open w)\<rparr> in
      if \<not> reachable E then (Inl GraphStoreError, w1)
      else (Inr (), w1\<lparr>sessions_open := Suc (sessions_open w1)\<rparr>))"

text \<open>\<open>session.run\<close>: one statement, which the store executes or rejects.\<close>

definition run :: "env \<Rightarrow> stmt \<Rightarrow> world \<Rightarrow> (error + unit) \<times> world" where
  "run E s w =
     (if stmt_fails E (length (issued w))
      then (Inl GraphStoreError, w\<lparr>issued := issued w @ [s]\<rparr>)
      else (Inr (), w\<lparr>store := exec (clock E (length (issued w))) s (store w),
                       issued := issued w @ [s]\<rparr>))"

fun run_all :: "env \<Rightarrow> stmt list \<Rightarrow> world \<Rightarrow> (error + unit) \<times> world" where
  "run_all E [] w = (Inr (), w)"
| "run_all E (s # ss) w =
     (case run E s w of
        (Inl e, w') \<Rightarrow> (Inl e, w')
      | (Inr _, w') \<Rightarrow> run_all E ss w')"

section \<open>The importer\<close>

text \<open>Lines 189 to 222: the seven catalog statements.\<close>

definition catalog_stmts :: "coords \<Rightarrow> stmt list" where
  "catalog_stmts c =
     [MergeNode ''Program'' [(''id'', Lit (PStr (program_name c)))]
                            [(''seq'', Lit (PInt (program_seq c)))],
      MergeNode ''Module'' [(''id'', Lit (PInt (module_seq c))),
                            (''seq'', Lit (PInt (module_seq c)))] [],
      MatchMergeRel ''Program'' [(''id'', Lit (PStr (program_name c)))]
                    ''HAS_MODULE''
                    ''Module'' [(''id'', Lit (PInt (module_seq c)))],
      MergeNode ''Day'' [(''id'', Lit (PInt (day_seq c))),
                         (''seq'', Lit (PInt (day_seq c)))] [],
      MatchMergeRel ''Module'' [(''id'', Lit (PInt (module_seq c)))]
                    ''HAS_DAY''
                    ''Day'' [(''id'', Lit (PInt (day_seq c))),
                             (''seq'', Lit (PInt (day_seq c)))],
      MergeNode ''Persona'' [(''id'', Lit (PStr (persona_name c))),
                             (''seq'', Lit (PInt (persona_seq c)))] [],
      MatchMergeRel ''Day'' [(''id'', Lit (PInt (day_seq c))),
                             (''seq'', Lit (PInt (day_seq c)))]
                    ''HAS_PERSONA''
                    ''Persona'' [(''id'', Lit (PStr (persona_name c))),
                                 (''seq'', Lit (PInt (persona_seq c)))]]"

text \<open>Lines 225 to 231: the root Turn and its ROOTS edge.\<close>

definition root_stmts :: "coords \<Rightarrow> string \<Rightarrow> stmt list" where
  "root_stmts c uuid2 =
     [MergeNode ''Turn'' [(''id'', Lit (PStr uuid2)), (''role'', Lit (PStr ''root'')),
                          (''ts'', Timestamp)] [],
      MatchMergeRel ''Persona'' [(''id'', Lit (PStr (persona_name c))),
                                 (''seq'', Lit (PInt (persona_seq c)))]
                    ''ROOTS''
                    ''Turn'' [(''id'', Lit (PStr uuid2)), (''role'', Lit (PStr ''root''))]]"

text \<open>Lines 238 to 257: the two statements of one turn.\<close>

definition turn_stmts :: "string \<Rightarrow> pyval \<Rightarrow> pyval \<Rightarrow> string \<Rightarrow> stmt list" where
  "turn_stmts new_turn_id role text parent_id =
     [MergeNode ''Turn'' [(''id'', Lit (PStr new_turn_id)), (''role'', Lit role),
                          (''text'', Lit text), (''accepted'', Lit (PBool True)),
                          (''parent_id'', Lit (PStr parent_id)), (''ts'', Timestamp)] [],
      MatchMergeRel ''Turn'' [(''id'', Lit (PStr new_turn_id))]
                    ''CHILD_OF''
                    ''Turn'' [(''id'', Lit (PStr parent_id))]]"

text \<open>Lines 235 to 259: the loop over the turns, with the parent cursor.\<close>

fun insert_turns :: "env \<Rightarrow> pyval list \<Rightarrow> string \<Rightarrow> world \<Rightarrow> (error + unit) \<times> world" where
  "insert_turns E [] parent_id w = (Inr (), w)"
| "insert_turns E (turn_item # rest) parent_id w =
     (let new_turn_id = str_uuid (uuid4_gen E (n_uuid4 w));
          w1 = w\<lparr>n_uuid4 := Suc (n_uuid4 w)\<rparr>
      in case subscript turn_item ''role'' of
           Inl e \<Rightarrow> (Inl e, w1)
         | Inr role \<Rightarrow>
             (case subscript turn_item ''text'' of
                Inl e \<Rightarrow> (Inl e, w1)
              | Inr text \<Rightarrow>
                  (case run_all E (turn_stmts new_turn_id role text parent_id) w1 of
                     (Inl e, w2) \<Rightarrow> (Inl e, w2)
                   | (Inr _, w2) \<Rightarrow> insert_turns E rest new_turn_id w2)))"

text \<open>Lines 187 to 259: the body of the \<open>try\<close>.\<close>

definition try_body :: "env \<Rightarrow> coords \<Rightarrow> string \<Rightarrow> pyval list \<Rightarrow> world \<Rightarrow> (error + unit) \<times> world" where
  "try_body E c uuid2 items w =
     (case run_all E (catalog_stmts c @ root_stmts c uuid2) w of
        (Inl e, w') \<Rightarrow> (Inl e, w')
      | (Inr _, w') \<Rightarrow> insert_turns E items uuid2 w')"

text \<open>Lines 261 to 263: \<open>session.close()\<close> and \<open>driver.close()\<close>.\<close>

definition close_all :: "world \<Rightarrow> world" where
  "close_all w = w\<lparr>sessions_open := sessions_open w - 1, drivers_open := drivers_open w - 1\<rparr>"

text \<open>
  \<open>import_file\<close>, in the order of the source: the session is started on the first line,
  then the path is checked, the file is read, the records are validated, the two
  \<open>uuid1\<close> values are drawn, and the statements run inside \<open>try ... finally\<close>.
\<close>

definition import_file :: "env \<Rightarrow> string \<Rightarrow> world \<Rightarrow> (error + string) \<times> world" where
  "import_file E json_file_path w =
     (case start_neo4j_session E w of
        (Inl e, w1) \<Rightarrow> (Inl e, w1)
      | (Inr _, w1) \<Rightarrow>
          (case parse_path json_file_path of
             Inl e \<Rightarrow> (Inl e, w1)
           | Inr c \<Rightarrow>
               (case read_json E json_file_path of
                  Inl e \<Rightarrow> (Inl e, w1)
                | Inr script_contents \<Rightarrow>
                    (case py_iter script_contents of
                       Inl e \<Rightarrow> (Inl e, w1)
                     | Inr items \<Rightarrow>
                         (case validate_items (lax_int E) items of
                            Inl e \<Rightarrow> (Inl e, w1)
                          | Inr _ \<Rightarrow>
                              (let uuid1 = uuid1_gen E (n_uuid1 w1);
                                   uuid2 = str_uuid (uuid1_gen E (Suc (n_uuid1 w1)));
                                   w2 = w1\<lparr>n_uuid1 := n_uuid1 w1 + 2,
                                           uuid1_drawn_at := uuid1_drawn_at w1
                                             @ [length (issued w1), length (issued w1)]\<rparr>
                               in case try_body E c uuid2 items w2 of
                                    (Inl e, w3) \<Rightarrow> (Inl e, close_all w3)
                                  | (Inr _, w3) \<Rightarrow> (Inr (str_uuid uuid1), close_all w3)))))))"

section \<open>Notions used in the statements\<close>

definition is_record :: "pyval \<Rightarrow> bool" where
  "is_record v = (case v of PDict _ \<Rightarrow> True | _ \<Rightarrow> False)"

definition record_valid :: "(pyval \<Rightarrow> bool) \<Rightarrow> pyval \<Rightarrow> bool" where
  "record_valid lax v = (case v of PDict item \<Rightarrow> validJSON lax item | _ \<Rightarrow> False)"

text \<open>
  What a record holds under a key, read off the record itself: the value the payload
  gives, or \<open>PNone\<close> when the key is absent.
\<close>

definition field :: "pyval \<Rightarrow> string \<Rightarrow> pyval" where
  "field item k =
     (case item of
        PDict kvs \<Rightarrow> (case map_of kvs k of None \<Rightarrow> PNone | Some v \<Rightarrow> v)
      | _ \<Rightarrow> PNone)"



text \<open>The store after a list of statements, the first of which is statement number \<open>k\<close>.\<close>

fun apply_stmts :: "env \<Rightarrow> nat \<Rightarrow> stmt list \<Rightarrow> graph \<Rightarrow> graph" where
  "apply_stmts E k [] g = g"
| "apply_stmts E k (s # ss) g = apply_stmts E (Suc k) ss (exec (clock E k) s g)"

definition turn_id :: "env \<Rightarrow> nat \<Rightarrow> string" where
  "turn_id E m = str_uuid (uuid4_gen E m)"

fun turn_ids :: "env \<Rightarrow> nat \<Rightarrow> nat \<Rightarrow> string list" where
  "turn_ids E m 0 = []"
| "turn_ids E m (Suc n) = turn_id E m # turn_ids E (Suc m) n"

text \<open>The statements of the loop over the turns, from the \<open>m\<close>-th \<open>uuid4\<close> on.\<close>

fun loop_stmts :: "env \<Rightarrow> nat \<Rightarrow> pyval list \<Rightarrow> string \<Rightarrow> stmt list" where
  "loop_stmts E m [] parent_id = []"
| "loop_stmts E m (t # ts) parent_id =
     turn_stmts (turn_id E m) (field t ''role'') (field t ''text'') parent_id
     @ loop_stmts E (Suc m) ts (turn_id E m)"

definition node_id :: "node \<Rightarrow> pyval option" where
  "node_id n = map_of (n_props n) ''id''"

definition catalog_nodes :: "coords \<Rightarrow> node list" where
  "catalog_nodes c =
     [\<lparr>n_label = ''Program'',
       n_props = [(''id'', PStr (program_name c)), (''seq'', PInt (program_seq c))]\<rparr>,
      \<lparr>n_label = ''Module'',
       n_props = [(''id'', PInt (module_seq c)), (''seq'', PInt (module_seq c))]\<rparr>,
      \<lparr>n_label = ''Day'',
       n_props = [(''id'', PInt (day_seq c)), (''seq'', PInt (day_seq c))]\<rparr>,
      \<lparr>n_label = ''Persona'',
       n_props = [(''id'', PStr (persona_name c)), (''seq'', PInt (persona_seq c))]\<rparr>]"

definition catalog_edges :: "edge list" where
  "catalog_edges =
     [\<lparr>e_src = 0, e_rel = ''HAS_MODULE'', e_dst = 1\<rparr>,
      \<lparr>e_src = 1, e_rel = ''HAS_DAY'', e_dst = 2\<rparr>,
      \<lparr>e_src = 2, e_rel = ''HAS_PERSONA'', e_dst = 3\<rparr>]"

definition root_node :: "string \<Rightarrow> int \<Rightarrow> node" where
  "root_node uuid2 ts =
     \<lparr>n_label = ''Turn'',
      n_props = [(''id'', PStr uuid2), (''role'', PStr ''root''), (''ts'', PInt ts)]\<rparr>"

definition turn_node :: "string \<Rightarrow> pyval \<Rightarrow> pyval \<Rightarrow> string \<Rightarrow> int \<Rightarrow> node" where
  "turn_node tid role text parent_id ts =
     \<lparr>n_label = ''Turn'',
      n_props = [(''id'', PStr tid), (''role'', role), (''text'', text),
                 (''accepted'', PBool True), (''parent_id'', PStr parent_id),
                 (''ts'', PInt ts)]\<rparr>"

fun chain_nodes :: "env \<Rightarrow> nat \<Rightarrow> nat \<Rightarrow> pyval list \<Rightarrow> string \<Rightarrow> node list" where
  "chain_nodes E k m [] parent_id = []"
| "chain_nodes E k m (t # ts) parent_id =
     turn_node (turn_id E m) (field t ''role'') (field t ''text'') parent_id (clock E k)
     # chain_nodes E (k + 2) (Suc m) ts (turn_id E m)"

fun chain_edges :: "nat \<Rightarrow> nat \<Rightarrow> nat \<Rightarrow> edge list" where
  "chain_edges child parent 0 = []"
| "chain_edges child parent (Suc n) =
     \<lparr>e_src = child, e_rel = ''CHILD_OF'', e_dst = parent\<rparr> # chain_edges (Suc child) child n"

text \<open>No Turn node of the store carries the identifier \<open>t\<close>.\<close>

definition no_turn_with_id :: "string \<Rightarrow> graph \<Rightarrow> bool" where
  "no_turn_with_id t g =
     list_all (\<lambda>n. n_label n \<noteq> ''Turn'' \<or> node_id n \<noteq> Some (PStr t)) (g_nodes g)"

text \<open>A statement that cannot give a Turn node the identifier \<open>t\<close>.\<close>

fun keeps_id :: "string \<Rightarrow> stmt \<Rightarrow> bool" where
  "keeps_id t (MergeNode l pat sets) =
     (l \<noteq> ''Turn'' \<or> (sets = [] \<and> map_of pat ''id'' \<noteq> Some (Lit (PStr t))))"
| "keeps_id t (MatchMergeRel la pa r lb pb) = True"

text \<open>
  Two records that differ at most in \<open>seq\<close> and in keys the model does not declare:
  the same role and text, and a \<open>seq\<close> that is absent, null or an integer.
\<close>

definition legacy_seq :: "pyval \<Rightarrow> bool" where
  "legacy_seq r =
     (case r of
        PDict item \<Rightarrow>
          (case map_of item ''seq'' of
             None \<Rightarrow> True | Some PNone \<Rightarrow> True | Some (PInt _) \<Rightarrow> True | _ \<Rightarrow> False)
      | _ \<Rightarrow> False)"

definition same_turn :: "pyval \<Rightarrow> pyval \<Rightarrow> bool" where
  "same_turn a b =
     (legacy_seq a \<and> legacy_seq b \<and>
      subscript a ''role'' = subscript b ''role'' \<and>
      subscript a ''text'' = subscript b ''text'')"

section \<open>Example inputs\<close>

definition world0 :: world where
  "world0 = \<lparr>store = empty_graph, issued = [], n_uuid1 = 0, uuid1_drawn_at = [],
              n_uuid4 = 0, sessions_open = 0, drivers_open = 0\<rparr>"

text \<open>
  A reachable store that never fails, a file system where every path holds the given
  script, generators that count up from a version-1 and a version-4 UUID, and a
  validation library that converts no float and no string (no example below carries a
  \<open>seq\<close> of either kind but the one whose \<open>seq\<close> has no digit).
\<close>

definition demo_env :: "pyval \<Rightarrow> env" where
  "demo_env script =
     \<lparr>uuid1_gen = (\<lambda>k. 0x00000000000010008000000000000000 + word_of_nat k),
      uuid4_gen = (\<lambda>k. 0x00000000000040008000000000000000 + word_of_nat k),
      clock = (\<lambda>k. 1000 + int k),
      stmt_fails = (\<lambda>k. False),
      reachable = True,
      read_json = (\<lambda>p. Inr script),
      lax_int = (\<lambda>v. False)\<rparr>"

definition therapy_path :: string where
  "therapy_path = ''Therapy/Module01/Day01/CoachAlex01.json''"

definition therapy_coords :: coords where
  "therapy_coords =
     \<lparr>program_name = ''Therapy'', program_seq = 0, module_seq = 1, day_seq = 1,
      persona_name = ''CoachAlex01'', persona_seq = 1\<rparr>"

definition two_turns :: "pyval list" where
  "two_turns = [PDict [(''role'', PStr ''system''), (''text'', PStr ''Welcome'')],
                PDict [(''role'', PStr ''user''), (''text'', PStr ''Hi'')]]"

definition missing_text :: "pyval list" where
  "missing_text = [PDict [(''role'', PStr ''system''), (''text'', PStr ''Welcome'')],
                   PDict [(''role'', PStr ''user'')]]"


definition two_turns_extra :: "pyval list" where
  "two_turns_extra =
     [PDict [(''seq'', PInt 7), (''role'', PStr ''system''), (''text'', PStr ''Welcome'')],
      PDict [(''role'', PStr ''user''), (''text'', PStr ''Hi''), (''mood'', PStr ''calm'')]]"

text \<open>The same store, rejecting the eleventh statement.\<close>

definition failing_env :: env where
  "failing_env = (demo_env (PList two_turns))\<lparr>stmt_fails := (\<lambda>k. k = 10)\<rparr>"

text \<open>A program folder named \<open>P\<close> followed by the superscript two, U+00B2.\<close>

definition superscript_path :: string where
  "superscript_path = [CHR ''P'', CHR 0xB2] @ ''/Module01/Day01/x.json''"

section \<open>The example inputs, evaluated\<close>

lemma parse_path_lonely: "parse_path ''lonely_script.json'' = Inl PathFormatError"
  by (simp add: parse_path_def path_parts_def path_root_def)

lemma parse_path_therapy: "parse_path therapy_path = Inr therapy_coords"
  by (simp add: therapy_path_def therapy_coords_def parse_path_def path_parts_def
      path_root_def digits_or_zero_def py_isdigit_def is_decimal_def py_int_def
      startswith_def endswith_def str_isdigit_def digits_value_def)

lemma demo_env_simps:
  "reachable (demo_env s)"
  "\<forall>k. \<not> stmt_fails (demo_env s) k"
  "read_json (demo_env s) p = Inr s"
  "clock (demo_env s) k = 1000 + int k"
  by (simp_all add: demo_env_def)

lemma world0_simps:
  "store world0 = empty_graph" "issued world0 = []" "n_uuid1 world0 = 0"
  "n_uuid4 world0 = 0" "sessions_open world0 = 0" "drivers_open world0 = 0"
  "uuid1_drawn_at world0 = []"
  by (simp_all add: world0_def)

lemma two_turns_valid: "list_all (record_valid lax) two_turns"
  by (simp add: two_turns_def record_valid_def validJSON_def str_ok_def)

section \<open>Validation\<close>

lemma validate_items_Inr:
  "validate_items lax items = Inr () \<longleftrightarrow> list_all (record_valid lax) items"
proof (induction lax items rule: validate_items.induct)
  case 1
  then show ?case by simp
next
  case (2 item rest)
  then show ?case by (auto simp: record_valid_def)
qed (simp_all add: record_valid_def)

lemma validate_items_schema:
  "list_all is_record items \<Longrightarrow>
   validate_items lax items = Inl TurnSchemaError \<longleftrightarrow>
   list_ex (\<lambda>r. \<not> record_valid lax r) items"
proof (induction lax items rule: validate_items.induct)
  case 1
  then show ?case by simp
next
  case (2 item rest)
  then show ?case by (auto simp: record_valid_def)
qed (simp_all add: is_record_def)

lemma import_file_invalid:
  assumes "reachable E" "parse_path p = Inr c" "read_json E p = Inr (PList items)"
    "validate_items (lax_int E) items = Inl e"
  shows "import_file E p w =
           (Inl e, w\<lparr>drivers_open := Suc (drivers_open w),
                      sessions_open := Suc (sessions_open w)\<rparr>)"
  using assms by (simp add: import_file_def start_neo4j_session_def py_iter_def)

section \<open>Statements that run without failure\<close>

lemma run_all_ok:
  "\<forall>k. \<not> stmt_fails E k \<Longrightarrow>
   run_all E ss w = (Inr (), w\<lparr>store := apply_stmts E (length (issued w)) ss (store w),
                               issued := issued w @ ss\<rparr>)"
  by (induction ss arbitrary: w) (simp_all add: run_def)

lemma apply_stmts_append:
  "apply_stmts E k (xs @ ys) g = apply_stmts E (k + length xs) ys (apply_stmts E k xs g)"
  by (induction xs arbitrary: k g) simp_all

lemma subscript_valid:
  "record_valid lax t \<Longrightarrow>
   subscript t ''role'' = Inr (field t ''role'') \<and> subscript t ''text'' = Inr (field t ''text'')"
  by (auto simp: record_valid_def validJSON_def subscript_def field_def
      split: pyval.splits option.splits)

lemma insert_turns_ok:
  "\<forall>k. \<not> stmt_fails E k \<Longrightarrow> list_all (record_valid lax) items \<Longrightarrow>
   insert_turns E items parent w =
     (Inr (), w\<lparr>store := apply_stmts E (length (issued w))
                             (loop_stmts E (n_uuid4 w) items parent) (store w),
                 issued := issued w @ loop_stmts E (n_uuid4 w) items parent,
                 n_uuid4 := n_uuid4 w + length items\<rparr>)"
proof (induction items arbitrary: parent w)
  case Nil
  then show ?case by simp
next
  case (Cons t ts)
  then have v: "record_valid lax t" and vs: "list_all (record_valid lax) ts" by simp_all
  show ?case
    using Cons.prems(1) Cons.IH[OF Cons.prems(1) vs]
    by (simp add: subscript_valid[OF v] run_all_ok turn_id_def apply_stmts_append Let_def)
qed

lemma import_file_valid:
  assumes "reachable E" "parse_path p = Inr c" "read_json E p = Inr (PList items)"
    "list_all (record_valid (lax_int E)) items" "\<forall>k. \<not> stmt_fails E k"
  shows "import_file E p w =
     (Inr (str_uuid (uuid1_gen E (n_uuid1 w))),
      w\<lparr>store := apply_stmts E (length (issued w))
                   (catalog_stmts c @ root_stmts c (str_uuid (uuid1_gen E (Suc (n_uuid1 w))))
                    @ loop_stmts E (n_uuid4 w) items (str_uuid (uuid1_gen E (Suc (n_uuid1 w)))))
                   (store w),
        issued := issued w @ catalog_stmts c
                    @ root_stmts c (str_uuid (uuid1_gen E (Suc (n_uuid1 w))))
                    @ loop_stmts E (n_uuid4 w) items (str_uuid (uuid1_gen E (Suc (n_uuid1 w)))),
        n_uuid1 := n_uuid1 w + 2,
        uuid1_drawn_at := uuid1_drawn_at w @ [length (issued w), length (issued w)],
        n_uuid4 := n_uuid4 w + length items\<rparr>)"
proof -
  have v: "validate_items (lax_int E) items = Inr ()"
    using assms(4) by (simp add: validate_items_Inr)
  show ?thesis
    using assms(1,2,3) v
    by (simp add: import_file_def start_neo4j_session_def py_iter_def try_body_def
        run_all_ok[OF assms(5)] insert_turns_ok[OF assms(5) assms(4)] close_all_def
        apply_stmts_append Let_def add.assoc)
qed

section \<open>The store after the statements\<close>

lemma match_from_append:
  "match_from i l pat (xs @ ys) = match_from i l pat xs @ match_from (i + length xs) l pat ys"
  by (induction xs arbitrary: i) simp_all

lemma match_from_none:
  "\<forall>n\<in>set ns. \<not> node_matches l pat n \<Longrightarrow> match_from i l pat ns = []"
  by (induction ns arbitrary: i) simp_all

lemma match_from_some:
  "match_from i l pat ns \<noteq> [] \<Longrightarrow> \<exists>n\<in>set ns. node_matches l pat n"
  using match_from_none by blast

lemma set_props_Nil: "set_props [] ps = ps"
  by (simp add: set_props_def)

lemma merge_node_new:
  "\<forall>n\<in>set (g_nodes g). \<not> node_matches l pat n \<Longrightarrow>
   merge_node l pat [] g = g\<lparr>g_nodes := g_nodes g @ [\<lparr>n_label = l, n_props = pat\<rparr>]\<rparr>"
  by (simp add: merge_node_def list_ex_iff set_props_Nil)

lemma node_matches_id:
  "node_matches l ((''id'', v) # pat) n \<Longrightarrow> n_label n = l \<and> node_id n = Some v"
  by (simp add: node_matches_def node_id_def)

text \<open>
  One turn, on a store where no Turn carries the new id and exactly one Turn, at
  position \<open>p\<close>, carries the parent's: the node is appended, and so is its edge to \<open>p\<close>.
\<close>

lemma turn_step:
  assumes fresh: "\<forall>n\<in>set (g_nodes g). n_label n = ''Turn'' \<longrightarrow> node_id n \<noteq> Some (PStr tid)"
    and par: "match_idx ''Turn'' [(''id'', PStr parent)] (g_nodes g) = [p]"
    and rng: "\<forall>e\<in>set (g_edges g). e_src e < length (g_nodes g)"
  shows "apply_stmts E k (turn_stmts tid role text parent) g =
         \<lparr>g_nodes = g_nodes g @ [turn_node tid role text parent (clock E k)],
          g_edges = g_edges g @ [\<lparr>e_src = length (g_nodes g), e_rel = ''CHILD_OF'', e_dst = p\<rparr>]\<rparr>"
proof -
  define t1 where "t1 = clock E k"
  let ?tn = "turn_node tid role text parent t1"
  have nomatch: "\<forall>n\<in>set (g_nodes g). \<not> node_matches ''Turn'' ((''id'', PStr tid) # pat) n" for pat
    using fresh node_matches_id by blast
  have s1: "merge_node ''Turn'' [(''id'', PStr tid), (''role'', role), (''text'', text),
                 (''accepted'', PBool True), (''parent_id'', PStr parent),
                 (''ts'', PInt t1)] [] g = g\<lparr>g_nodes := g_nodes g @ [?tn]\<rparr>"
    using merge_node_new[OF nomatch]
    by (simp add: turn_node_def)
  have "\<exists>n\<in>set (g_nodes g). node_matches ''Turn'' [(''id'', PStr parent)] n"
    using par match_from_some[of 0 "''Turn''" "[(''id'', PStr parent)]" "g_nodes g"]
    by (simp add: match_idx_def)
  then have neq: "tid \<noteq> parent"
    using fresh node_matches_id by fastforce
  have child: "match_idx ''Turn'' [(''id'', PStr tid)] (g_nodes g @ [?tn]) = [length (g_nodes g)]"
    using match_from_none[OF nomatch[of "[]"]]
    by (simp add: match_idx_def match_from_append node_matches_def turn_node_def)
  have parent: "match_idx ''Turn'' [(''id'', PStr parent)] (g_nodes g @ [?tn]) = [p]"
    using par neq by (simp add: match_idx_def match_from_append node_matches_def turn_node_def)
  have notin: "\<lparr>e_src = length (g_nodes g), e_rel = ''CHILD_OF'', e_dst = p\<rparr> \<notin> set (g_edges g)"
    using rng by force
  show ?thesis
    using notin
    by (simp add: s1 turn_stmts_def eval_pattern_def merge_rel_def child[simplified]
        parent[simplified] add_edge_def flip: t1_def)
qed

lemma chain:
  assumes "\<forall>n\<in>set (g_nodes g). n_label n = ''Turn'' \<longrightarrow>
             (\<forall>t\<in>set (turn_ids E m (length items)). node_id n \<noteq> Some (PStr t))"
    and "distinct (turn_ids E m (length items))"
    and "match_idx ''Turn'' [(''id'', PStr parent)] (g_nodes g) = [p]"
    and "\<forall>e\<in>set (g_edges g). e_src e < length (g_nodes g)"
  shows "apply_stmts E k (loop_stmts E m items parent) g =
         \<lparr>g_nodes = g_nodes g @ chain_nodes E k m items parent,
          g_edges = g_edges g @ chain_edges (length (g_nodes g)) p (length items)\<rparr>"
  using assms
proof (induction items arbitrary: g m k parent p)
  case Nil
  then show ?case by simp
next
  case (Cons t ts)
  let ?tid = "turn_id E m"
  let ?g1 = "\<lparr>g_nodes = g_nodes g @ [turn_node ?tid (field t ''role'') (field t ''text'') parent (clock E k)],
          g_edges = g_edges g @ [\<lparr>e_src = length (g_nodes g), e_rel = ''CHILD_OF'', e_dst = p\<rparr>]\<rparr>"
  have fresh0: "\<forall>n\<in>set (g_nodes g). n_label n = ''Turn'' \<longrightarrow> node_id n \<noteq> Some (PStr ?tid)"
    using Cons.prems(1) by simp
  have step: "apply_stmts E k (turn_stmts ?tid (field t ''role'') (field t ''text'') parent) g = ?g1"
    by (rule turn_step[OF fresh0 Cons.prems(3) Cons.prems(4)])
  have len: "length (turn_stmts ?tid (field t ''role'') (field t ''text'') parent) = 2"
    by (simp add: turn_stmts_def)
  have a1: "\<forall>n\<in>set (g_nodes ?g1). n_label n = ''Turn'' \<longrightarrow>
             (\<forall>t\<in>set (turn_ids E (Suc m) (length ts)). node_id n \<noteq> Some (PStr t))"
    using Cons.prems(1,2) by (auto simp: turn_node_def node_id_def)
  have a2: "distinct (turn_ids E (Suc m) (length ts))"
    using Cons.prems(2) by simp
  have nomatch: "\<forall>n\<in>set (g_nodes g). \<not> node_matches ''Turn'' [(''id'', PStr ?tid)] n"
    using fresh0 node_matches_id by blast
  have a3: "match_idx ''Turn'' [(''id'', PStr ?tid)] (g_nodes ?g1) = [length (g_nodes g)]"
    using match_from_none[OF nomatch]
    by (simp add: match_idx_def match_from_append node_matches_def turn_node_def)
  have a4: "\<forall>e\<in>set (g_edges ?g1). e_src e < length (g_nodes ?g1)"
    using Cons.prems(4) by (auto simp: less_Suc_eq)
  show ?case
    using Cons.IH[OF a1 a2 a3 a4, of "k + 2"]
    by (simp add: apply_stmts_append step len)
qed

lemma chain_nodes_map:
  "chain_nodes E k m items parent =
     map (\<lambda>i. turn_node (turn_id E (m + i)) (field (items ! i) ''role'') (field (items ! i) ''text'')
                  (if i = 0 then parent else turn_id E (m + i - 1)) (clock E (k + 2 * i)))
         [0..<length items]"
proof (induction items arbitrary: k m parent)
  case Nil
  then show ?case by simp
next
  case (Cons t ts)
  show ?case
    unfolding chain_nodes.simps Cons.IH length_Cons map_upt_Suc
    by (auto simp: nth_Cons')
qed

lemma chain_edges_map:
  "chain_edges c p n =
     map (\<lambda>i. \<lparr>e_src = c + i, e_rel = ''CHILD_OF'', e_dst = (if i = 0 then p else c + i - 1)\<rparr>)
         [0..<n]"
proof (induction n arbitrary: c p)
  case 0
  then show ?case by simp
next
  case (Suc n)
  show ?case
    unfolding chain_edges.simps Suc.IH map_upt_Suc
    by auto
qed

lemma catalog_from_empty:
  "apply_stmts E k (catalog_stmts c) empty_graph =
     \<lparr>g_nodes = catalog_nodes c, g_edges = catalog_edges\<rparr>"
  by (simp add: catalog_stmts_def empty_graph_def eval_pattern_def merge_node_def merge_rel_def
      node_matches_def match_idx_def set_props_def add_edge_def catalog_nodes_def
      catalog_edges_def)

lemma root_after_catalog:
  "apply_stmts E k (root_stmts c uuid2) \<lparr>g_nodes = catalog_nodes c, g_edges = catalog_edges\<rparr> =
     \<lparr>g_nodes = catalog_nodes c @ [root_node uuid2 (clock E k)],
      g_edges = catalog_edges @ [\<lparr>e_src = 3, e_rel = ''ROOTS'', e_dst = 4\<rparr>]\<rparr>"
  by (simp add: root_stmts_def eval_pattern_def merge_node_def merge_rel_def
      node_matches_def match_idx_def set_props_def add_edge_def catalog_nodes_def
      catalog_edges_def root_node_def)

section \<open>The claims\<close>

text \<open>
  C2. For a script of N turn records that the validator accepts, imported into an empty
  store that executes every statement, with the identifiers drawn for the root and the
  turns pairwise distinct: the store holds the four catalog nodes, the root Turn and N
  further Turn nodes, and N CHILD_OF edges. Turn \<open>i\<close> (node \<open>5 + i\<close>) carries the values
  that record \<open>i\<close> of the payload holds under \<open>role\<close> and \<open>text\<close>, \<open>accepted = true\<close>, a
  timestamp, and as \<open>parent_id\<close> the id of turn \<open>i - 1\<close> (of the root for the first); its
  CHILD_OF edge points to node \<open>4 + i\<close>, which is that parent, so the edges form one path
  from the last turn back to the root (node 4). The example after the theorem spells the
  seven nodes and the six edges out for a script of two records.
\<close>

theorem chain_persisted:
  assumes "reachable E" "parse_path p = Inr c" "read_json E p = Inr (PList items)"
    "list_all (record_valid (lax_int E)) items" "\<forall>k. \<not> stmt_fails E k"
    "store w = empty_graph"
    "distinct (str_uuid (uuid1_gen E (Suc (n_uuid1 w))) # turn_ids E (n_uuid4 w) (length items))"
  shows "fst (import_file E p w) = Inr (str_uuid (uuid1_gen E (n_uuid1 w))) \<and>
    g_nodes (store (snd (import_file E p w))) =
      catalog_nodes c
      @ [root_node (str_uuid (uuid1_gen E (Suc (n_uuid1 w)))) (clock E (length (issued w) + 7))]
      @ map (\<lambda>i. turn_node (turn_id E (n_uuid4 w + i))
                    (field (items ! i) ''role'') (field (items ! i) ''text'')
                    (if i = 0 then str_uuid (uuid1_gen E (Suc (n_uuid1 w)))
                     else turn_id E (n_uuid4 w + i - 1))
                    (clock E (length (issued w) + 9 + 2 * i)))
            [0..<length items] \<and>
    g_edges (store (snd (import_file E p w))) =
      catalog_edges
      @ [\<lparr>e_src = 3, e_rel = ''ROOTS'', e_dst = 4\<rparr>]
      @ map (\<lambda>i. \<lparr>e_src = 5 + i, e_rel = ''CHILD_OF'', e_dst = 4 + i\<rparr>) [0..<length items]"
proof -
  let ?root = "str_uuid (uuid1_gen E (Suc (n_uuid1 w)))"
  let ?k = "length (issued w)"
  let ?g = "\<lparr>g_nodes = catalog_nodes c @ [root_node ?root (clock E (?k + 7))],
            g_edges = catalog_edges @ [\<lparr>e_src = 3, e_rel = ''ROOTS'', e_dst = 4\<rparr>]\<rparr>"
  have lens: "length (catalog_stmts c) = 7" "length (root_stmts c ?root) = 2"
    by (simp_all add: catalog_stmts_def root_stmts_def)
  have base: "apply_stmts E (?k + 7) (root_stmts c ?root)
                (apply_stmts E ?k (catalog_stmts c) empty_graph) = ?g"
    by (simp only: catalog_from_empty root_after_catalog)
  have f1: "\<forall>n\<in>set (g_nodes ?g). n_label n = ''Turn'' \<longrightarrow>
             (\<forall>t\<in>set (turn_ids E (n_uuid4 w) (length items)). node_id n \<noteq> Some (PStr t))"
    using assms(7) by (auto simp: catalog_nodes_def root_node_def node_id_def)
  have f2: "distinct (turn_ids E (n_uuid4 w) (length items))"
    using assms(7) by simp
  have f3: "match_idx ''Turn'' [(''id'', PStr ?root)] (g_nodes ?g) = [4]"
    by (simp add: match_idx_def catalog_nodes_def root_node_def node_matches_def)
  have f4: "\<forall>e\<in>set (g_edges ?g). e_src e < length (g_nodes ?g)"
    by (simp add: catalog_edges_def catalog_nodes_def)
  have loop: "apply_stmts E (?k + 9) (loop_stmts E (n_uuid4 w) items ?root) ?g =
     \<lparr>g_nodes = g_nodes ?g @ chain_nodes E (?k + 9) (n_uuid4 w) items ?root,
      g_edges = g_edges ?g @ chain_edges (length (g_nodes ?g)) 4 (length items)\<rparr>"
    by (rule chain[OF f1 f2 f3 f4])
  have nine: "?k + 7 + 2 = ?k + 9"
    by simp
  have five: "length (g_nodes ?g) = 5"
    by (simp add: catalog_nodes_def)
  have edges: "chain_edges 5 4 (length items) =
      map (\<lambda>i. \<lparr>e_src = 5 + i, e_rel = ''CHILD_OF'', e_dst = 4 + i\<rparr>) [0..<length items]"
    unfolding chain_edges_map by (rule map_cong) auto
  have all: "apply_stmts E ?k
               (catalog_stmts c @ root_stmts c ?root @ loop_stmts E (n_uuid4 w) items ?root)
               empty_graph =
             \<lparr>g_nodes = g_nodes ?g @ chain_nodes E (?k + 9) (n_uuid4 w) items ?root,
              g_edges = g_edges ?g @ chain_edges 5 4 (length items)\<rparr>"
    by (simp only: apply_stmts_append lens nine base loop five)
  show ?thesis
    unfolding import_file_valid[OF assms(1-5)] assms(6)
    by (simp add: all chain_nodes_map edges add.assoc del: apply_stmts.simps)
qed

theorem chain_persisted_witness:
  "fst (import_file (demo_env (PList two_turns)) therapy_path world0) =
     Inr ''00000000-0000-1000-8000-000000000000'' \<and>
   g_nodes (store (snd (import_file (demo_env (PList two_turns)) therapy_path world0))) =
     [\<lparr>n_label = ''Program'', n_props = [(''id'', PStr ''Therapy''), (''seq'', PInt 0)]\<rparr>,
      \<lparr>n_label = ''Module'', n_props = [(''id'', PInt 1), (''seq'', PInt 1)]\<rparr>,
      \<lparr>n_label = ''Day'', n_props = [(''id'', PInt 1), (''seq'', PInt 1)]\<rparr>,
      \<lparr>n_label = ''Persona'', n_props = [(''id'', PStr ''CoachAlex01''), (''seq'', PInt 1)]\<rparr>,
      \<lparr>n_label = ''Turn'',
       n_props = [(''id'', PStr ''00000000-0000-1000-8000-000000000001''),
                  (''role'', PStr ''root''), (''ts'', PInt 1007)]\<rparr>,
      \<lparr>n_label = ''Turn'',
       n_props = [(''id'', PStr ''00000000-0000-4000-8000-000000000000''),
                  (''role'', PStr ''system''), (''text'', PStr ''Welcome''),
                  (''accepted'', PBool True),
                  (''parent_id'', PStr ''00000000-0000-1000-8000-000000000001''),
                  (''ts'', PInt 1009)]\<rparr>,
      \<lparr>n_label = ''Turn'',
       n_props = [(''id'', PStr ''00000000-0000-4000-8000-000000000001''),
                  (''role'', PStr ''user''), (''text'', PStr ''Hi''),
                  (''accepted'', PBool True),
                  (''parent_id'', PStr ''00000000-0000-4000-8000-000000000000''),
                  (''ts'', PInt 1011)]\<rparr>] \<and>
   g_edges (store (snd (import_file (demo_env (PList two_turns)) therapy_path world0))) =
     [\<lparr>e_src = 0, e_rel = ''HAS_MODULE'', e_dst = 1\<rparr>,
      \<lparr>e_src = 1, e_rel = ''HAS_DAY'', e_dst = 2\<rparr>,
      \<lparr>e_src = 2, e_rel = ''HAS_PERSONA'', e_dst = 3\<rparr>,
      \<lparr>e_src = 3, e_rel = ''ROOTS'', e_dst = 4\<rparr>,
      \<lparr>e_src = 5, e_rel = ''CHILD_OF'', e_dst = 4\<rparr>,
      \<lparr>e_src = 6, e_rel = ''CHILD_OF'', e_dst = 5\<rparr>]"
proof -
  let ?E = "demo_env (PList two_turns)"
  have ids: "distinct (str_uuid (uuid1_gen ?E (Suc (n_uuid1 world0)))
                       # turn_ids ?E (n_uuid4 world0) (length two_turns))"
    by code_simp
  have job: "str_uuid (uuid1_gen ?E (n_uuid1 world0)) = ''00000000-0000-1000-8000-000000000000''"
    by code_simp
  have root: "str_uuid (uuid1_gen ?E (Suc 0)) = ''00000000-0000-1000-8000-000000000001''"
    by code_simp
  have t0: "turn_id ?E 0 = ''00000000-0000-4000-8000-000000000000''"
    by code_simp
  have t1: "turn_id ?E (Suc 0) = ''00000000-0000-4000-8000-000000000001''"
    by code_simp
  have len: "length two_turns = 2"
    by (simp add: two_turns_def)
  have fields: "field (two_turns ! 0) ''role'' = PStr ''system''"
    "field (two_turns ! 0) ''text'' = PStr ''Welcome''"
    "field (two_turns ! Suc 0) ''role'' = PStr ''user''"
    "field (two_turns ! Suc 0) ''text'' = PStr ''Hi''"
    by (simp_all add: two_turns_def field_def)
  have upt: "[0..<2] = [0, Suc 0]"
    by (simp add: upt_rec)
  note r = chain_persisted[OF demo_env_simps(1) parse_path_therapy demo_env_simps(3)
      two_turns_valid demo_env_simps(2) world0_simps(1) ids]
  have a: "fst (import_file ?E therapy_path world0) = Inr ''00000000-0000-1000-8000-000000000000''"
    using r job by simp
  have b: "g_nodes (store (snd (import_file ?E therapy_path world0))) =
      catalog_nodes therapy_coords
      @ [root_node ''00000000-0000-1000-8000-000000000001'' 1007,
         turn_node ''00000000-0000-4000-8000-000000000000'' (PStr ''system'') (PStr ''Welcome'')
           ''00000000-0000-1000-8000-000000000001'' 1009,
         turn_node ''00000000-0000-4000-8000-000000000001'' (PStr ''user'') (PStr ''Hi'')
           ''00000000-0000-4000-8000-000000000000'' 1011]"
    using r by (simp add: len upt root t0 t1 fields world0_simps demo_env_simps(4))
  have c: "g_edges (store (snd (import_file ?E therapy_path world0))) =
      catalog_edges @ [\<lparr>e_src = 3, e_rel = ''ROOTS'', e_dst = 4\<rparr>,
        \<lparr>e_src = 5, e_rel = ''CHILD_OF'', e_dst = 4\<rparr>,
        \<lparr>e_src = 6, e_rel = ''CHILD_OF'', e_dst = 5\<rparr>]"
    using r by (simp add: len upt)
  show ?thesis
    unfolding a b c
    by (simp add: catalog_nodes_def therapy_coords_def root_node_def turn_node_def catalog_edges_def)
qed

text \<open>
  C3. The claim is that a malformed path is rejected before any I/O, in particular
  before a connection to the store is opened or verified. \<open>import_file\<close> calls
  \<open>start_neo4j_session\<close> on its first line: for the single-segment path of the test, a
  store that cannot be reached makes the call end with the driver's error, and a store
  that can be reached is left with a driver and a session open when the path error is
  raised. No statement is issued in either case.
\<close>

theorem malformed_path_connects_first:
  "import_file E ''lonely_script.json'' w =
     (if reachable E
      then (Inl PathFormatError,
            w\<lparr>drivers_open := Suc (drivers_open w), sessions_open := Suc (sessions_open w)\<rparr>)
      else (Inl GraphStoreError, w\<lparr>drivers_open := Suc (drivers_open w)\<rparr>))"
  by (simp add: import_file_def start_neo4j_session_def parse_path_lonely)

text \<open>
  C4. The claim is that the session and the driver are released on every exit path,
  validation failures included. The \<open>try ... finally\<close> that closes them starts after the
  validation: a script whose second record has no text ends the call with the schema
  error and with the session and the driver still open.
\<close>

theorem validation_failure_leaves_session_open:
  "import_file (demo_env (PList missing_text)) therapy_path world0 =
     (Inl TurnSchemaError, world0\<lparr>drivers_open := 1, sessions_open := 1\<rparr>)"
proof -
  have "validate_items lax missing_text = Inl TurnSchemaError" for lax
    by (simp add: missing_text_def validJSON_def str_ok_def)
  then show ?thesis
    using import_file_invalid[OF demo_env_simps(1) parse_path_therapy demo_env_simps(3)]
    by (simp add: world0_def)
qed

text \<open>
  C5. When the path is well formed, the store is reachable and the file holds a list of
  records of which one is rejected by \<open>validJSON\<close> (whatever the validation library
  converts to an integer), the call ends with the schema error, the store is what it
  was and no statement has been issued.
\<close>

theorem invalid_script_writes_nothing:
  assumes "reachable E" "parse_path p = Inr c" "read_json E p = Inr (PList items)"
    "list_all is_record items" "list_ex (\<lambda>r. \<not> record_valid (lax_int E) r) items"
  shows "fst (import_file E p w) = Inl TurnSchemaError \<and>
         store (snd (import_file E p w)) = store w \<and>
         issued (snd (import_file E p w)) = issued w"
proof -
  have "validate_items (lax_int E) items = Inl TurnSchemaError"
    using assms(4,5) by (simp add: validate_items_schema)
  then show ?thesis
    using import_file_invalid[OF assms(1-3)] by simp
qed

theorem invalid_script_writes_nothing_witness:
  "fst (import_file (demo_env (PList missing_text)) therapy_path world0) = Inl TurnSchemaError \<and>
   store (snd (import_file (demo_env (PList missing_text)) therapy_path world0)) = empty_graph \<and>
   issued (snd (import_file (demo_env (PList missing_text)) therapy_path world0)) = []"
proof -
  have r: "list_all is_record missing_text"
    by (simp add: missing_text_def is_record_def)
  have e: "list_ex (\<lambda>r. \<not> record_valid lax r) missing_text" for lax
    by (simp add: missing_text_def record_valid_def validJSON_def)
  show ?thesis
    using invalid_script_writes_nothing[OF demo_env_simps(1) parse_path_therapy
        demo_env_simps(3) r e, of world0]
    by (simp add: world0_simps)
qed

text \<open>
  C6. The claim is that parsing succeeds on every well-formed path and that a program
  or persona name without digits gets the ordering key 0. \<open>str.isdigit\<close> accepts the
  superscript digits, which \<open>int()\<close> rejects: the program folder \<open>P\<close> with a superscript
  two holds no decimal digit, and parsing the path raises \<open>ValueError\<close> from \<open>int()\<close>.
\<close>

theorem superscript_digit_breaks_parse:
  "filter is_decimal (take 2 superscript_path) = [] \<and>
   parse_path superscript_path = Inl IntLiteralError"
  by (simp add: superscript_path_def parse_path_def path_parts_def path_root_def
      digits_or_zero_def py_isdigit_def is_decimal_def py_int_def)




lemma run_read_json: "run (E\<lparr>read_json := r\<rparr>) s w = run E s w"
  by (simp add: run_def)

lemma run_all_read_json: "run_all (E\<lparr>read_json := r\<rparr>) ss w = run_all E ss w"
  by (induction ss arbitrary: w) (simp_all add: run_read_json split: prod.splits sum.splits)

lemma same_turn_validate:
  "list_all2 same_turn xs ys \<Longrightarrow> validate_items lax xs = validate_items lax ys"
proof (induction rule: list_all2_induct)
  case Nil
  then show ?case by simp
next
  case (Cons x xs y ys)
  from Cons.hyps(1) obtain a b where x: "x = PDict a" and y: "y = PDict b"
    by (auto simp: same_turn_def legacy_seq_def split: pyval.splits)
  have "validJSON lax a = validJSON lax b"
    using Cons.hyps(1) unfolding x y
    by (auto simp: same_turn_def legacy_seq_def subscript_def validJSON_def int_ok_def
        split: option.splits pyval.splits)
  then show ?case
    using Cons.IH by (simp add: x y)
qed

lemma same_turn_insert:
  "list_all2 same_turn xs ys \<Longrightarrow>
   insert_turns (E\<lparr>read_json := r\<rparr>) ys parent w = insert_turns E xs parent w"
proof (induction arbitrary: parent w rule: list_all2_induct)
  case Nil
  then show ?case by simp
next
  case (Cons x xs y ys)
  have r: "subscript y ''role'' = subscript x ''role''"
    and t: "subscript y ''text'' = subscript x ''text''"
    using Cons.hyps(1) by (simp_all add: same_turn_def)
  show ?case
    by (simp add: r t run_all_read_json Cons.IH Let_def split: sum.splits prod.splits)
qed

text \<open>
  C9. Two payloads whose records agree on role and text, and whose \<open>seq\<close> values are
  absent, null or integers, whatever other keys they carry: the two calls end alike, with
  the same result, the same store and the same statements issued, whether or not the
  store fails on the way.
\<close>

theorem seq_and_extras_ignored:
  assumes "list_all2 same_turn items1 items2" "read_json E p = Inr (PList items1)"
  shows "import_file (E\<lparr>read_json := \<lambda>q. Inr (PList items2)\<rparr>) p w = import_file E p w"
  using assms(2)
  by (simp add: import_file_def start_neo4j_session_def py_iter_def try_body_def
      same_turn_validate[OF assms(1)] same_turn_insert[OF assms(1)] run_all_read_json
      Let_def split: sum.splits prod.splits)

theorem seq_and_extras_ignored_witness:
  "import_file (demo_env (PList two_turns_extra)) therapy_path world0 =
   import_file (demo_env (PList two_turns)) therapy_path world0"
proof -
  have s: "list_all2 same_turn two_turns two_turns_extra"
    by (simp add: two_turns_def two_turns_extra_def same_turn_def legacy_seq_def subscript_def)
  have e: "(demo_env (PList two_turns))\<lparr>read_json := \<lambda>q. Inr (PList two_turns_extra)\<rparr> =
           demo_env (PList two_turns_extra)"
    by (simp add: demo_env_def)
  show ?thesis
    using seq_and_extras_ignored[OF s demo_env_simps(3), of therapy_path world0]
    by (simp add: e)
qed

text \<open>
  C10. A well-formed path whose file holds the empty list, imported into an empty store
  that executes every statement: the call succeeds with the job identifier; the
  statements issued are the seven of the catalog and the two of the root, and no other;
  the store holds the four catalog nodes with their three edges, the root Turn and its
  ROOTS edge from the Persona; the root is the only Turn, and there is no CHILD_OF edge.
\<close>

theorem empty_script_imports:
  assumes "reachable E" "parse_path p = Inr c" "read_json E p = Inr (PList [])"
    "\<forall>k. \<not> stmt_fails E k" "store w = empty_graph"
  shows "fst (import_file E p w) = Inr (str_uuid (uuid1_gen E (n_uuid1 w))) \<and>
    issued (snd (import_file E p w)) =
      issued w @ catalog_stmts c @ root_stmts c (str_uuid (uuid1_gen E (Suc (n_uuid1 w)))) \<and>
    store (snd (import_file E p w)) =
      \<lparr>g_nodes = catalog_nodes c
                  @ [root_node (str_uuid (uuid1_gen E (Suc (n_uuid1 w))))
                       (clock E (length (issued w) + 7))],
       g_edges = catalog_edges @ [\<lparr>e_src = 3, e_rel = ''ROOTS'', e_dst = 4\<rparr>]\<rparr> \<and>
    filter (\<lambda>n. n_label n = ''Turn'') (g_nodes (store (snd (import_file E p w)))) =
      [root_node (str_uuid (uuid1_gen E (Suc (n_uuid1 w)))) (clock E (length (issued w) + 7))] \<and>
    filter (\<lambda>e. e_rel e = ''CHILD_OF'') (g_edges (store (snd (import_file E p w)))) = []"
proof -
  let ?root = "str_uuid (uuid1_gen E (Suc (n_uuid1 w)))"
  let ?k = "length (issued w)"
  have lens: "length (catalog_stmts c) = 7"
    by (simp add: catalog_stmts_def)
  have v: "list_all (record_valid (lax_int E)) []" by simp
  have st: "apply_stmts E ?k (catalog_stmts c @ root_stmts c ?root) empty_graph =
      \<lparr>g_nodes = catalog_nodes c @ [root_node ?root (clock E (?k + 7))],
       g_edges = catalog_edges @ [\<lparr>e_src = 3, e_rel = ''ROOTS'', e_dst = 4\<rparr>]\<rparr>"
    by (simp only: apply_stmts_append lens catalog_from_empty root_after_catalog)
  show ?thesis
    unfolding import_file_valid[OF assms(1-3) v assms(4)] assms(5)
    using st
    by (simp add: catalog_nodes_def catalog_edges_def root_node_def del: apply_stmts.simps)
qed

theorem empty_script_imports_witness:
  "fst (import_file (demo_env (PList [])) therapy_path world0) =
     Inr ''00000000-0000-1000-8000-000000000000'' \<and>
   length (issued (snd (import_file (demo_env (PList [])) therapy_path world0))) = 9 \<and>
   length (g_nodes (store (snd (import_file (demo_env (PList [])) therapy_path world0)))) = 5"
proof -
  let ?E = "demo_env (PList [])"
  have job: "str_uuid (uuid1_gen ?E (n_uuid1 world0)) = ''00000000-0000-1000-8000-000000000000''"
    by code_simp
  note r = empty_script_imports[OF demo_env_simps(1) parse_path_therapy demo_env_simps(3)
      demo_env_simps(2) world0_simps(1)]
  have a: "fst (import_file ?E therapy_path world0) = Inr ''00000000-0000-1000-8000-000000000000''"
    using r job by simp
  have b: "length (issued (snd (import_file ?E therapy_path world0))) = 9"
    using r by (simp add: world0_simps catalog_stmts_def root_stmts_def)
  have c: "length (g_nodes (store (snd (import_file ?E therapy_path world0)))) = 5"
    using r by (simp add: catalog_nodes_def)
  show ?thesis
    using a b c by simp
qed

section \<open>The job identifier\<close>

lemma map_of_eval_pattern:
  "map_of (eval_pattern now pat) k = Some (PStr t) \<longleftrightarrow> map_of pat k = Some (Lit (PStr t))"
  by (induction pat) (auto simp: eval_pattern_def split: pexpr.splits)

lemma merge_node_keeps:
  assumes "no_turn_with_id t g"
    and "l \<noteq> ''Turn'' \<or> (sets = [] \<and> map_of pat ''id'' \<noteq> Some (PStr t))"
  shows "no_turn_with_id t (merge_node l pat sets g)"
  using assms
  by (auto simp: no_turn_with_id_def merge_node_def list_all_iff node_matches_def
      set_props_Nil node_id_def)

lemma exec_keeps:
  "keeps_id t s \<Longrightarrow> no_turn_with_id t g \<Longrightarrow> no_turn_with_id t (exec now s g)"
proof (cases s)
  case (MergeNode l pat sets)
  assume k: "keeps_id t s" and n: "no_turn_with_id t g"
  have "l \<noteq> ''Turn'' \<or> (eval_pattern now sets = [] \<and> map_of (eval_pattern now pat) ''id'' \<noteq> Some (PStr t))"
    using k MergeNode by (auto simp: map_of_eval_pattern) (simp add: eval_pattern_def)
  then show ?thesis
    using merge_node_keeps[OF n] MergeNode by simp
next
  case (MatchMergeRel la pa r lb pb)
  assume "no_turn_with_id t g"
  then show ?thesis
    using MatchMergeRel by (simp add: no_turn_with_id_def merge_rel_def)
qed

lemma run_keeps:
  "run E s w = (r, w') \<Longrightarrow> keeps_id t s \<Longrightarrow> no_turn_with_id t (store w) \<Longrightarrow>
   no_turn_with_id t (store w')"
  by (auto simp: run_def exec_keeps split: if_splits)

lemma run_all_keeps:
  "run_all E ss w = (r, w') \<Longrightarrow> list_all (keeps_id t) ss \<Longrightarrow> no_turn_with_id t (store w) \<Longrightarrow>
   no_turn_with_id t (store w')"
proof (induction ss arbitrary: w)
  case Nil
  then show ?case by simp
next
  case (Cons s ss)
  obtain r1 w1 where r1: "run E s w = (r1, w1)" by (cases "run E s w")
  have k: "keeps_id t s" and ks: "list_all (keeps_id t) ss" using Cons.prems(2) by simp_all
  have w1: "no_turn_with_id t (store w1)"
    by (rule run_keeps[OF r1 k Cons.prems(3)])
  show ?case
  proof (cases r1)
    case (Inl e)
    then show ?thesis using Cons.prems(1) r1 w1 by simp
  next
    case (Inr u)
    then have "run_all E ss w1 = (r, w')" using Cons.prems(1) r1 by simp
    then show ?thesis by (rule Cons.IH[OF _ ks w1])
  qed
qed

lemma turn_stmts_keep:
  "tid \<noteq> t \<Longrightarrow> list_all (keeps_id t) (turn_stmts tid role text parent)"
  by (simp add: turn_stmts_def)

lemma run_n_uuid4: "run E s w = (r, w') \<Longrightarrow> n_uuid4 w' = n_uuid4 w"
  by (auto simp: run_def split: if_splits)

lemma run_all_n_uuid4: "run_all E ss w = (r, w') \<Longrightarrow> n_uuid4 w' = n_uuid4 w"
proof (induction ss arbitrary: w)
  case Nil
  then show ?case by simp
next
  case (Cons s ss)
  obtain r1 w1 where r1: "run E s w = (r1, w1)" by (cases "run E s w")
  show ?case
    using Cons.prems r1 run_n_uuid4[OF r1] Cons.IH[of w1]
    by (cases r1) auto
qed

lemma insert_turns_mono:
  "insert_turns E items parent w = (r, w') \<Longrightarrow> n_uuid4 w \<le> n_uuid4 w'"
proof (induction items arbitrary: parent w)
  case Nil
  then show ?case by simp
next
  case (Cons x xs)
  show ?case
    using Cons.prems
    by (auto simp: Let_def split: sum.splits prod.splits
        dest!: run_all_n_uuid4 Cons.IH)
qed

lemma insert_turns_keeps:
  "insert_turns E items parent w = (r, w') \<Longrightarrow>
   \<forall>k. n_uuid4 w \<le> k \<and> k < n_uuid4 w' \<longrightarrow> turn_id E k \<noteq> t \<Longrightarrow>
   no_turn_with_id t (store w) \<Longrightarrow> no_turn_with_id t (store w')"
proof (induction items arbitrary: parent w)
  case Nil
  then show ?case by simp
next
  case (Cons x xs)
  let ?tid = "str_uuid (uuid4_gen E (n_uuid4 w))"
  let ?w1 = "w\<lparr>n_uuid4 := Suc (n_uuid4 w)\<rparr>"
  have w1: "no_turn_with_id t (store ?w1)" using Cons.prems(3) by simp
  show ?case
  proof (cases "subscript x ''role''")
    case (Inl e)
    then show ?thesis using Cons.prems(1) w1 by (auto simp: Let_def)
  next
    case role: (Inr role)
    show ?thesis
    proof (cases "subscript x ''text''")
      case (Inl e)
      then show ?thesis using Cons.prems(1) w1 role by (auto simp: Let_def)
    next
      case body: (Inr body)
      obtain r2 w2 where r2: "run_all E (turn_stmts ?tid role body parent) ?w1 = (r2, w2)"
        by (cases "run_all E (turn_stmts ?tid role body parent) ?w1")
      have n2: "n_uuid4 w2 = Suc (n_uuid4 w)"
        using run_all_n_uuid4[OF r2] by simp
      have le: "Suc (n_uuid4 w) \<le> n_uuid4 w'"
      proof (cases r2)
        case (Inl e)
        then show ?thesis using Cons.prems(1) role body r2 n2 by (simp add: Let_def)
      next
        case (Inr u)
        then have "insert_turns E xs ?tid w2 = (r, w')"
          using Cons.prems(1) role body r2 by (simp add: Let_def)
        then show ?thesis using insert_turns_mono n2 by metis
      qed
      have ne: "?tid \<noteq> t"
        using Cons.prems(2) le by (simp add: turn_id_def)
      have w2: "no_turn_with_id t (store w2)"
        by (rule run_all_keeps[OF r2 turn_stmts_keep[OF ne] w1])
      show ?thesis
      proof (cases r2)
        case (Inl e)
        then show ?thesis using Cons.prems(1) role body r2 w2 by (simp add: Let_def)
      next
        case (Inr u)
        then have rec: "insert_turns E xs ?tid w2 = (r, w')"
          using Cons.prems(1) role body r2 by (simp add: Let_def)
        have rng: "\<forall>k. n_uuid4 w2 \<le> k \<and> k < n_uuid4 w' \<longrightarrow> turn_id E k \<noteq> t"
          using Cons.prems(2) n2 by simp
        show ?thesis by (rule Cons.IH[OF rec rng w2])
      qed
    qed
  qed
qed

lemma try_body_keeps:
  assumes "try_body E c uuid2 items w = (r, w')"
    "uuid2 \<noteq> t" "\<forall>k. n_uuid4 w \<le> k \<and> k < n_uuid4 w' \<longrightarrow> turn_id E k \<noteq> t"
    "no_turn_with_id t (store w)"
  shows "no_turn_with_id t (store w')"
proof -
  obtain r1 w1 where r1: "run_all E (catalog_stmts c @ root_stmts c uuid2) w = (r1, w1)"
    by (cases "run_all E (catalog_stmts c @ root_stmts c uuid2) w")
  have k: "list_all (keeps_id t) (catalog_stmts c @ root_stmts c uuid2)"
    using assms(2) by (simp add: catalog_stmts_def root_stmts_def)
  have w1: "no_turn_with_id t (store w1)"
    by (rule run_all_keeps[OF r1 k assms(4)])
  have n1: "n_uuid4 w1 = n_uuid4 w"
    by (rule run_all_n_uuid4[OF r1])
  show ?thesis
  proof (cases r1)
    case (Inl e)
    then show ?thesis using assms(1) r1 w1 by (simp add: try_body_def)
  next
    case (Inr u)
    then have rec: "insert_turns E items uuid2 w1 = (r, w')"
      using assms(1) r1 by (simp add: try_body_def)
    have rng: "\<forall>k. n_uuid4 w1 \<le> k \<and> k < n_uuid4 w' \<longrightarrow> turn_id E k \<noteq> t"
      using assms(3) n1 by simp
    show ?thesis by (rule insert_turns_keeps[OF rec rng w1])
  qed
qed

lemma try_body_mono: "try_body E c uuid2 items w = (r, w') \<Longrightarrow> n_uuid4 w \<le> n_uuid4 w'"
  by (auto simp: try_body_def split: sum.splits prod.splits
      dest!: run_all_n_uuid4 insert_turns_mono)

text \<open>What a successful call tells.\<close>

lemma import_file_Inr:
  assumes "import_file E p w = (Inr t, w')"
  shows "\<exists>c items w3.
           try_body E c (str_uuid (uuid1_gen E (Suc (n_uuid1 w)))) items
             (w\<lparr>drivers_open := Suc (drivers_open w), sessions_open := Suc (sessions_open w),
                n_uuid1 := n_uuid1 w + 2,
                uuid1_drawn_at := uuid1_drawn_at w @ [length (issued w), length (issued w)]\<rparr>) = (Inr (), w3) \<and>
           w' = close_all w3 \<and> t = str_uuid (uuid1_gen E (n_uuid1 w))"
  using assms
  by (auto simp: import_file_def start_neo4j_session_def Let_def
      split: prod.splits sum.splits if_splits) blast

lemma run_n_uuid1: "run E s w = (r, w') \<Longrightarrow> n_uuid1 w' = n_uuid1 w"
  by (auto simp: run_def split: if_splits)

lemma run_all_n_uuid1: "run_all E ss w = (r, w') \<Longrightarrow> n_uuid1 w' = n_uuid1 w"
proof (induction ss arbitrary: w)
  case Nil
  then show ?case by simp
next
  case (Cons s ss)
  obtain r1 w1 where r1: "run E s w = (r1, w1)" by (cases "run E s w")
  show ?case
    using Cons.prems r1 run_n_uuid1[OF r1] Cons.IH[of w1]
    by (cases r1) auto
qed

lemma insert_turns_n_uuid1: "insert_turns E items parent w = (r, w') \<Longrightarrow> n_uuid1 w' = n_uuid1 w"
proof (induction items arbitrary: parent w)
  case Nil
  then show ?case by simp
next
  case (Cons x xs)
  show ?case
    using Cons.prems
    by (auto simp: Let_def split: sum.splits prod.splits
        dest!: run_all_n_uuid1 Cons.IH)
qed

lemma try_body_n_uuid1: "try_body E c uuid2 items w = (r, w') \<Longrightarrow> n_uuid1 w' = n_uuid1 w"
  by (auto simp: try_body_def split: sum.splits prod.splits
      dest!: run_all_n_uuid1 insert_turns_n_uuid1)


text \<open>Printing a UUID loses nothing, and shows its version at position 14.\<close>

lemma hex_val_table: "list_all (\<lambda>a. hex_val (hex_digit a) = a) [0..<16]"
  by code_simp

lemma hex_val_digit: "a < 16 \<Longrightarrow> hex_val (hex_digit a) = a"
  using hex_val_table by (simp add: list_all_iff del: upt_Suc)

lemma nibble_lt: "unat (drop_bit n (u :: uuid) AND 15) < 16"
proof -
  have "unat (drop_bit n u AND 15) \<le> unat (15 :: uuid)"
    by (rule word_and_le1 [THEN word_le_nat_alt [THEN iffD1]])
  then show ?thesis by simp
qed

lemma length_hex32: "length (hex32 u) = 32"
  by (simp add: hex32_def)

lemma hex32_nth: "i < 32 \<Longrightarrow> hex32 u ! i = hex_digit (unat (drop_bit (4 * (31 - i)) u AND 15))"
  unfolding hex32_def by (simp only: nth_map_upt diff_zero add_0 length_upt)

lemma hex32_inj: assumes "hex32 u = hex32 v" shows "u = v"
proof (rule bit_word_eqI)
  fix n assume n: "n < LENGTH(128)"
  then have n128: "n < 128" by simp
  define i where "i = 31 - n div 4"
  have i: "i < 32" by (simp add: i_def)
  have sh: "4 * (31 - i) = 4 * (n div 4)"
    using n128 by (simp add: i_def)
  have "hex32 u ! i = hex32 v ! i" using assms by simp
  then have "hex_digit (unat (drop_bit (4 * (n div 4)) u AND 15)) =
             hex_digit (unat (drop_bit (4 * (n div 4)) v AND 15))"
    by (simp only: hex32_nth[OF i] sh)
  then have "hex_val (hex_digit (unat (drop_bit (4 * (n div 4)) u AND 15))) =
             hex_val (hex_digit (unat (drop_bit (4 * (n div 4)) v AND 15)))"
    by (rule arg_cong)
  then have "unat (drop_bit (4 * (n div 4)) u AND 15) = unat (drop_bit (4 * (n div 4)) v AND 15)"
    by (simp only: hex_val_digit[OF nibble_lt])
  then have e: "drop_bit (4 * (n div 4)) u AND 15 = drop_bit (4 * (n div 4)) v AND 15"
    by (simp only: word_unat_eq_iff)
  have pos: "4 * (n div 4) + n mod 4 = n"
    by simp
  have "n mod 4 < 4" by simp
  then have "n mod 4 = 0 \<or> n mod 4 = 1 \<or> n mod 4 = 2 \<or> n mod 4 = 3" by linarith
  then have b15: "bit (15 :: uuid) (n mod 4)"
    by (auto simp: bit_numeral_simps)
  have "bit (drop_bit (4 * (n div 4)) x AND 15) (n mod 4) = bit x n" for x :: uuid
    using b15 pos by (simp add: bit_and_iff bit_drop_bit_eq add.commute)
  then show "bit u n = bit v n"
    using e by metis
qed

lemma groups_eq:
  assumes "a @ x # b @ x # c @ x # d @ x # f = a' @ x # b' @ x # c' @ x # d' @ x # f'"
    and "length a = length a'" "length b = length b'" "length c = length c'" "length d = length d'"
  shows "a @ b @ c @ d @ f = a' @ b' @ c' @ d' @ f'"
  using assms by simp

lemma group_join: "take a (drop b h) @ drop (a + b) h = drop b h"
  by (metis append_take_drop_id drop_drop)

lemma split_groups:
  "take 8 h @ take 4 (drop 8 h) @ take 4 (drop 12 h) @ take 4 (drop 16 h) @ drop 20 h = h"
proof -
  have a: "take 4 (drop 16 h) @ drop 20 h = drop 16 h"
    using group_join[of 4 16 h] by simp
  have b: "take 4 (drop 12 h) @ drop 16 h = drop 12 h"
    using group_join[of 4 12 h] by simp
  have c: "take 4 (drop 8 h) @ drop 12 h = drop 8 h"
    using group_join[of 4 8 h] by simp
  show ?thesis
    by (simp only: a b c append_take_drop_id)
qed

lemma str_uuid_inj: assumes "str_uuid u = str_uuid v" shows "u = v"
proof -
  define h where "h = hex32 u"
  define g where "g = hex32 v"
  have lh: "length h = 32" and lg: "length g = 32"
    by (simp_all add: h_def g_def length_hex32)
  have eq: "take 8 h @ CHR ''-'' # take 4 (drop 8 h) @ CHR ''-'' # take 4 (drop 12 h) @ CHR ''-'' #
            take 4 (drop 16 h) @ CHR ''-'' # drop 20 h =
            take 8 g @ CHR ''-'' # take 4 (drop 8 g) @ CHR ''-'' # take 4 (drop 12 g) @ CHR ''-'' #
            take 4 (drop 16 g) @ CHR ''-'' # drop 20 g"
    using assms by (simp add: str_uuid_def Let_def h_def g_def)
  have "take 8 h @ take 4 (drop 8 h) @ take 4 (drop 12 h) @ take 4 (drop 16 h) @ drop 20 h =
        take 8 g @ take 4 (drop 8 g) @ take 4 (drop 12 g) @ take 4 (drop 16 g) @ drop 20 g"
    by (rule groups_eq[OF eq]) (simp_all add: lh lg)
  then have "h = g"
    by (simp only: split_groups)
  then show ?thesis
    unfolding h_def g_def by (rule hex32_inj)
qed

lemma str_uuid_14: "str_uuid u ! 14 = hex_digit (uuid_version u)"
proof -
  define h where "h = hex32 u"
  have lh: "length h = 32" by (simp add: h_def length_hex32)
  have "str_uuid u ! 14 =
        (take 8 h @ CHR ''-'' # take 4 (drop 8 h) @ CHR ''-'' # take 4 (drop 12 h) @ CHR ''-'' #
            take 4 (drop 16 h) @ CHR ''-'' # drop 20 h) ! 14"
    by (simp add: str_uuid_def Let_def h_def)
  also have "\<dots> = h ! 12"
    using lh by (simp add: nth_append nth_Cons')
  also have "\<dots> = hex_digit (unat (drop_bit (4 * (31 - 12)) u AND 15))"
    unfolding h_def by (rule hex32_nth) simp
  finally show ?thesis by (simp add: uuid_version_def)
qed

lemma versions_differ:
  "uuid_version a = 1 \<Longrightarrow> uuid_version b = 4 \<Longrightarrow> str_uuid a \<noteq> str_uuid b"
proof
  assume a: "uuid_version a = 1" and b: "uuid_version b = 4" and e: "str_uuid a = str_uuid b"
  have "str_uuid a ! 14 = str_uuid b ! 14" using e by simp
  then have "hex_digit 1 = hex_digit 4" by (simp only: str_uuid_14 a b)
  then show False by (simp add: hex_digit_def)
qed

lemma length_str_uuid: "length (str_uuid u) = 36"
  by (simp add: str_uuid_def hex32_def Let_def)

lemma import_file_Inr_keeps:
  assumes "import_file E p w = (Inr t, w')"
    "str_uuid (uuid1_gen E (Suc (n_uuid1 w))) \<noteq> x"
    "\<forall>k. n_uuid4 w \<le> k \<and> k < n_uuid4 w' \<longrightarrow> turn_id E k \<noteq> x"
    "no_turn_with_id x (store w)"
  shows "no_turn_with_id x (store w') \<and> n_uuid1 w' = n_uuid1 w + 2 \<and>
         t = str_uuid (uuid1_gen E (n_uuid1 w))"
proof -
  let ?w0 = "w\<lparr>drivers_open := Suc (drivers_open w), sessions_open := Suc (sessions_open w),
                n_uuid1 := n_uuid1 w + 2,
                uuid1_drawn_at := uuid1_drawn_at w @ [length (issued w), length (issued w)]\<rparr>"
  obtain c items w3 where
    tb: "try_body E c (str_uuid (uuid1_gen E (Suc (n_uuid1 w)))) items ?w0 = (Inr (), w3)"
    and w': "w' = close_all w3" and t: "t = str_uuid (uuid1_gen E (n_uuid1 w))"
    using import_file_Inr[OF assms(1)] by blast
  have s0: "no_turn_with_id x (store ?w0)" using assms(4) by simp
  have rng: "\<forall>k. n_uuid4 ?w0 \<le> k \<and> k < n_uuid4 w3 \<longrightarrow> turn_id E k \<noteq> x"
    using assms(3) w' by (simp add: close_all_def)
  have "no_turn_with_id x (store w3)"
    by (rule try_body_keeps[OF tb assms(2) rng s0])
  moreover have "n_uuid1 w3 = n_uuid1 w + 2"
    using try_body_n_uuid1[OF tb] by simp
  ultimately show ?thesis
    using w' t by (simp add: close_all_def)
qed

lemma import_file_Inr_mono:
  assumes "import_file E p w = (Inr t, w')"
  shows "n_uuid4 w \<le> n_uuid4 w'"
proof -
  obtain c items w3 where
    tb: "try_body E c (str_uuid (uuid1_gen E (Suc (n_uuid1 w)))) items
           (w\<lparr>drivers_open := Suc (drivers_open w), sessions_open := Suc (sessions_open w),
              n_uuid1 := n_uuid1 w + 2,
              uuid1_drawn_at := uuid1_drawn_at w @ [length (issued w), length (issued w)]\<rparr>) = (Inr (), w3)"
    and w': "w' = close_all w3"
    using import_file_Inr[OF assms(1)] by blast
  show ?thesis
    using try_body_mono[OF tb] w' by (simp add: close_all_def)
qed

lemma run_drawn_at: "run E s w = (r, w') \<Longrightarrow> uuid1_drawn_at w' = uuid1_drawn_at w"
  by (auto simp: run_def split: if_splits)

lemma run_all_drawn_at: "run_all E ss w = (r, w') \<Longrightarrow> uuid1_drawn_at w' = uuid1_drawn_at w"
proof (induction ss arbitrary: w)
  case Nil
  then show ?case by simp
next
  case (Cons s ss)
  obtain r1 w1 where r1: "run E s w = (r1, w1)" by (cases "run E s w")
  show ?case
    using Cons.prems r1 run_drawn_at[OF r1] Cons.IH[of w1]
    by (cases r1) auto
qed

lemma insert_turns_drawn_at:
  "insert_turns E items parent w = (r, w') \<Longrightarrow> uuid1_drawn_at w' = uuid1_drawn_at w"
proof (induction items arbitrary: parent w)
  case Nil
  then show ?case by simp
next
  case (Cons x xs)
  show ?case
    using Cons.prems
    by (auto simp: Let_def split: sum.splits prod.splits
        dest!: run_all_drawn_at Cons.IH)
qed

lemma try_body_drawn_at:
  "try_body E c uuid2 items w = (r, w') \<Longrightarrow> uuid1_drawn_at w' = uuid1_drawn_at w"
  by (auto simp: try_body_def split: sum.splits prod.splits
      dest!: run_all_drawn_at insert_turns_drawn_at)

lemma import_file_Inr_drawn_at:
  assumes "import_file E p w = (Inr t, w')"
  shows "uuid1_drawn_at w' = uuid1_drawn_at w @ [length (issued w), length (issued w)]"
proof -
  obtain c items w3 where
    tb: "try_body E c (str_uuid (uuid1_gen E (Suc (n_uuid1 w)))) items
           (w\<lparr>drivers_open := Suc (drivers_open w), sessions_open := Suc (sessions_open w),
              n_uuid1 := n_uuid1 w + 2,
              uuid1_drawn_at := uuid1_drawn_at w @ [length (issued w), length (issued w)]\<rparr>)
         = (Inr (), w3)"
    and w': "w' = close_all w3"
    using import_file_Inr[OF assms(1)] by blast
  show ?thesis
    using try_body_drawn_at[OF tb] w' by (simp add: close_all_def)
qed

text \<open>
  C8. Two calls in sequence that both succeed, where the uuid library hands them four
  different \<open>uuid1\<close> values, of version 1 those that become tokens, and \<open>uuid4\<close> values of
  version 4, and where the store they start from has no Turn with a token as id. Each
  call returns the 36 characters of the first \<open>uuid1\<close> value it draws; both \<open>uuid1\<close>
  values of a call are drawn while the number of statements issued is still what it was
  when the call began, that is before the call's first statement; the two tokens differ;
  neither is the id of its call's root; and no Turn node of the store, after the first
  call or after both, has a token as its id.
\<close>

theorem job_id_fresh:
  assumes c1: "import_file E p1 w = (Inr t1, w1)" and c2: "import_file E p2 w1 = (Inr t2, w2)"
    and d: "distinct [uuid1_gen E (n_uuid1 w), uuid1_gen E (n_uuid1 w + 1),
                      uuid1_gen E (n_uuid1 w + 2), uuid1_gen E (n_uuid1 w + 3)]"
    and v1: "uuid_version (uuid1_gen E (n_uuid1 w)) = 1"
            "uuid_version (uuid1_gen E (n_uuid1 w + 2)) = 1"
    and v4: "list_all (\<lambda>k. uuid_version (uuid4_gen E k) = 4) [n_uuid4 w..<n_uuid4 w2]"
    and s1: "no_turn_with_id (str_uuid (uuid1_gen E (n_uuid1 w))) (store w)"
    and s2: "no_turn_with_id (str_uuid (uuid1_gen E (n_uuid1 w + 2))) (store w)"
  shows "t1 = str_uuid (uuid1_gen E (n_uuid1 w)) \<and> t2 = str_uuid (uuid1_gen E (n_uuid1 w1)) \<and>
         n_uuid1 w1 = n_uuid1 w + 2 \<and> n_uuid1 w2 = n_uuid1 w1 + 2 \<and>
         uuid1_drawn_at w1 = uuid1_drawn_at w @ [length (issued w), length (issued w)] \<and>
         uuid1_drawn_at w2 = uuid1_drawn_at w1 @ [length (issued w1), length (issued w1)] \<and>
         length t1 = 36 \<and> length t2 = 36 \<and> t1 \<noteq> t2 \<and>
         t1 \<noteq> str_uuid (uuid1_gen E (Suc (n_uuid1 w))) \<and>
         t2 \<noteq> str_uuid (uuid1_gen E (Suc (n_uuid1 w1))) \<and>
         no_turn_with_id t1 (store w1) \<and>
         no_turn_with_id t1 (store w2) \<and> no_turn_with_id t2 (store w2)"
proof -
  let ?n = "n_uuid1 w"
  let ?a = "str_uuid (uuid1_gen E ?n)" and ?b = "str_uuid (uuid1_gen E (?n + 2))"
  have m1: "n_uuid4 w \<le> n_uuid4 w1" by (rule import_file_Inr_mono[OF c1])
  have m2: "n_uuid4 w1 \<le> n_uuid4 w2" by (rule import_file_Inr_mono[OF c2])
  have r1a: "str_uuid (uuid1_gen E (Suc ?n)) \<noteq> ?a" and r1b: "str_uuid (uuid1_gen E (Suc ?n)) \<noteq> ?b"
    using d str_uuid_inj by auto
  have ver: "turn_id E k \<noteq> ?a \<and> turn_id E k \<noteq> ?b" if "n_uuid4 w \<le> k" "k < n_uuid4 w2" for k
  proof -
    have "uuid_version (uuid4_gen E k) = 4"
      using v4 that by (simp add: list_all_iff)
    then have "str_uuid (uuid1_gen E ?n) \<noteq> str_uuid (uuid4_gen E k)"
      and "str_uuid (uuid1_gen E (?n + 2)) \<noteq> str_uuid (uuid4_gen E k)"
      using versions_differ[OF v1(1)] versions_differ[OF v1(2)] by blast+
    then show ?thesis
      unfolding turn_id_def by (intro conjI notI) (drule sym, simp)+
  qed
  have va1: "\<forall>k. n_uuid4 w \<le> k \<and> k < n_uuid4 w1 \<longrightarrow> turn_id E k \<noteq> ?a"
    and vb1: "\<forall>k. n_uuid4 w \<le> k \<and> k < n_uuid4 w1 \<longrightarrow> turn_id E k \<noteq> ?b"
    and va2: "\<forall>k. n_uuid4 w1 \<le> k \<and> k < n_uuid4 w2 \<longrightarrow> turn_id E k \<noteq> ?a"
    and vb2: "\<forall>k. n_uuid4 w1 \<le> k \<and> k < n_uuid4 w2 \<longrightarrow> turn_id E k \<noteq> ?b"
    using ver m1 m2 by auto
  note A = import_file_Inr_keeps[OF c1 r1a va1 s1]
  note B = import_file_Inr_keeps[OF c1 r1b vb1 s2]
  have n1: "n_uuid1 w1 = ?n + 2" using A by simp
  have r2a: "str_uuid (uuid1_gen E (Suc (n_uuid1 w1))) \<noteq> ?a"
    and r2b: "str_uuid (uuid1_gen E (Suc (n_uuid1 w1))) \<noteq> ?b"
    using d str_uuid_inj by (auto simp: n1 numeral_3_eq_3)
  have A1: "no_turn_with_id ?a (store w1)" using A by simp
  have B1: "no_turn_with_id ?b (store w1)" using B by simp
  note A2 = import_file_Inr_keeps[OF c2 r2a va2 A1]
  note B2 = import_file_Inr_keeps[OF c2 r2b vb2 B1]
  have n2: "n_uuid1 w2 = n_uuid1 w1 + 2" using A2 by simp
  have t1: "t1 = ?a" using A by simp
  have t2: "t2 = ?b" using B2 by (simp add: n1)
  have ne: "?a \<noteq> ?b" using d str_uuid_inj by auto
  note l1 = import_file_Inr_drawn_at[OF c1]
  note l2 = import_file_Inr_drawn_at[OF c2]
  show ?thesis
    using A1 A2 B2 r1a r2b ne l1 l2 n2 unfolding t1 t2
    by (simp add: n1 length_str_uuid)
qed

theorem job_id_fresh_witness:
  "fst (import_file (demo_env (PList two_turns)) therapy_path world0) =
     Inr ''00000000-0000-1000-8000-000000000000'' \<and>
   fst (import_file (demo_env (PList two_turns)) therapy_path
          (snd (import_file (demo_env (PList two_turns)) therapy_path world0))) =
     Inr ''00000000-0000-1000-8000-000000000002'' \<and>
   uuid1_drawn_at (snd (import_file (demo_env (PList two_turns)) therapy_path
                   (snd (import_file (demo_env (PList two_turns)) therapy_path world0)))) =
     [0, 0, 13, 13] \<and>
   no_turn_with_id ''00000000-0000-1000-8000-000000000000''
     (store (snd (import_file (demo_env (PList two_turns)) therapy_path
                   (snd (import_file (demo_env (PList two_turns)) therapy_path world0)))))"
proof -
  let ?E = "demo_env (PList two_turns)"
  note valid = import_file_valid[OF demo_env_simps(1) parse_path_therapy demo_env_simps(3)
      two_turns_valid demo_env_simps(2)]
  define w1 where "w1 = snd (import_file ?E therapy_path world0)"
  define w2 where "w2 = snd (import_file ?E therapy_path w1)"
  have c1: "import_file ?E therapy_path world0 = (Inr (str_uuid (uuid1_gen ?E (n_uuid1 world0))), w1)"
    unfolding w1_def by (simp add: valid)
  have c2: "import_file ?E therapy_path w1 = (Inr (str_uuid (uuid1_gen ?E (n_uuid1 w1))), w2)"
    unfolding w2_def by (simp add: valid)
  have len: "length two_turns = 2" by (simp add: two_turns_def)
  have ll: "length (loop_stmts E m two_turns parent) = 4" for E m parent
    by (simp add: two_turns_def turn_stmts_def)
  have n1: "n_uuid1 w1 = 2" "n_uuid4 w1 = 2" "length (issued w1) = 13" "uuid1_drawn_at w1 = [0, 0]"
    unfolding w1_def
    by (simp_all add: valid world0_simps len ll catalog_stmts_def root_stmts_def)
  have n2: "n_uuid4 w2 = 4"
    unfolding w2_def by (simp add: valid n1 len)
  have d: "distinct [uuid1_gen ?E (n_uuid1 world0), uuid1_gen ?E (n_uuid1 world0 + 1),
                     uuid1_gen ?E (n_uuid1 world0 + 2), uuid1_gen ?E (n_uuid1 world0 + 3)]"
    by code_simp
  have v1: "uuid_version (uuid1_gen ?E (n_uuid1 world0)) = 1"
           "uuid_version (uuid1_gen ?E (n_uuid1 world0 + 2)) = 1"
    by code_simp+
  have "list_all (\<lambda>k. uuid_version (uuid4_gen ?E k) = 4) [n_uuid4 world0..<4]"
    by code_simp
  then have v4: "list_all (\<lambda>k. uuid_version (uuid4_gen ?E k) = 4) [n_uuid4 world0..<n_uuid4 w2]"
    by (simp only: n2)
  have s: "no_turn_with_id x (store world0)" for x
    by (simp add: world0_def empty_graph_def no_turn_with_id_def)
  have a: "str_uuid (uuid1_gen ?E (n_uuid1 world0)) = ''00000000-0000-1000-8000-000000000000''"
    by code_simp
  have "str_uuid (uuid1_gen ?E 2) = ''00000000-0000-1000-8000-000000000002''"
    by code_simp
  then have b: "str_uuid (uuid1_gen ?E (n_uuid1 w1)) = ''00000000-0000-1000-8000-000000000002''"
    by (simp only: n1)
  note r = job_id_fresh[OF c1 c2 d v1 v4 s s]
  have f1: "fst (import_file ?E therapy_path world0) = Inr ''00000000-0000-1000-8000-000000000000''"
    using c1 a by simp
  have f2: "fst (import_file ?E therapy_path w1) = Inr ''00000000-0000-1000-8000-000000000002''"
    using c2 b by simp
  have f3: "no_turn_with_id ''00000000-0000-1000-8000-000000000000'' (store w2)"
    using r a by simp
  have f4: "uuid1_drawn_at w2 = [0, 0, 13, 13]"
    using r by (simp add: n1)
  show ?thesis
    using f1 f2 f3 f4 unfolding w2_def w1_def by simp
qed

section \<open>Importing the same path twice\<close>

lemma store_after_import:
  assumes "reachable E" "parse_path p = Inr c" "read_json E p = Inr (PList items)"
    "list_all (record_valid (lax_int E)) items" "\<forall>k. \<not> stmt_fails E k"
  shows "store (snd (import_file E p w)) =
           apply_stmts E (length (issued w) + 9)
             (loop_stmts E (n_uuid4 w) items (str_uuid (uuid1_gen E (Suc (n_uuid1 w)))))
             (apply_stmts E (length (issued w) + 7)
                (root_stmts c (str_uuid (uuid1_gen E (Suc (n_uuid1 w)))))
                (apply_stmts E (length (issued w)) (catalog_stmts c) (store w)))"
    and "length (issued (snd (import_file E p w))) = length (issued w) + 9 + 2 * length items"
    and "n_uuid1 (snd (import_file E p w)) = n_uuid1 w + 2"
    and "n_uuid4 (snd (import_file E p w)) = n_uuid4 w + length items"
proof -
  let ?root = "str_uuid (uuid1_gen E (Suc (n_uuid1 w)))"
  have lens: "length (catalog_stmts c) = 7" "length (root_stmts c ?root) = 2"
    by (simp_all add: catalog_stmts_def root_stmts_def)
  have nine: "length (issued w) + 7 + 2 = length (issued w) + 9" by simp
  have ll: "length (loop_stmts E m items parent) = 2 * length items" for m parent
    by (induction items arbitrary: m parent) (simp_all add: turn_stmts_def)
  show "store (snd (import_file E p w)) =
           apply_stmts E (length (issued w) + 9)
             (loop_stmts E (n_uuid4 w) items ?root)
             (apply_stmts E (length (issued w) + 7) (root_stmts c ?root)
                (apply_stmts E (length (issued w)) (catalog_stmts c) (store w)))"
    unfolding import_file_valid[OF assms]
    by (simp add: apply_stmts_append lens add.assoc add.commute del: apply_stmts.simps)
  show "length (issued (snd (import_file E p w))) = length (issued w) + 9 + 2 * length items"
    unfolding import_file_valid[OF assms] by (simp add: lens ll)
  show "n_uuid1 (snd (import_file E p w)) = n_uuid1 w + 2"
    unfolding import_file_valid[OF assms] by simp
  show "n_uuid4 (snd (import_file E p w)) = n_uuid4 w + length items"
    unfolding import_file_valid[OF assms] by simp
qed

text \<open>Nodes that all carry the label Turn are invisible to a statement on another label.\<close>

lemma other_label_no_match:
  "\<forall>n\<in>set T. n_label n = ''Turn'' \<Longrightarrow> l \<noteq> ''Turn'' \<Longrightarrow> n \<in> set T \<Longrightarrow> \<not> node_matches l pat n"
  by (auto simp: node_matches_def)

lemma other_label_simps:
  assumes "\<forall>n\<in>set T. n_label n = ''Turn''" "l \<noteq> ''Turn''"
  shows "list_ex (node_matches l pat) T = False"
    and "map (\<lambda>n. if node_matches l pat n then f n else n) T = T"
    and "match_from i l pat T = []"
proof -
  have no: "\<forall>n\<in>set T. \<not> node_matches l pat n"
    using assms by (auto simp: node_matches_def)
  show "list_ex (node_matches l pat) T = False" using no by (simp add: list_ex_iff)
  show "map (\<lambda>n. if node_matches l pat n then f n else n) T = T"
    using no by (simp add: map_idI)
  show "match_from i l pat T = []" using no by (rule match_from_none)
qed

lemma node_matches_rec:
  "node_matches l pat \<lparr>n_label = l', n_props = ps\<rparr> =
     (l' = l \<and> list_all (\<lambda>(k, v). map_of ps k = Some v) pat)"
  by (simp add: node_matches_def)

lemma catalog_idempotent:
  assumes T: "\<forall>n\<in>set T. n_label n = ''Turn''"
  shows "apply_stmts E k (catalog_stmts c)
           \<lparr>g_nodes = catalog_nodes c @ T, g_edges = catalog_edges @ Es\<rparr> =
         \<lparr>g_nodes = catalog_nodes c @ T, g_edges = catalog_edges @ Es\<rparr>"
proof -
  note o = other_label_simps[OF T]
  show ?thesis
    by (simp add: catalog_stmts_def eval_pattern_def merge_node_def merge_rel_def
      node_matches_rec match_idx_def set_props_def add_edge_def catalog_nodes_def
      catalog_edges_def o match_from_append)
qed


lemma chain_nodes_label:
  "n \<in> set (chain_nodes E k m items parent) \<Longrightarrow> n_label n = ''Turn''"
  by (induction items arbitrary: k m parent) (auto simp: turn_node_def)

lemma chain_nodes_id:
  "n \<in> set (chain_nodes E k m items parent) \<Longrightarrow>
   \<exists>t\<in>set (turn_ids E m (length items)). node_id n = Some (PStr t)"
  by (induction items arbitrary: k m parent) (auto simp: turn_node_def node_id_def)

lemma length_chain_nodes: "length (chain_nodes E k m items parent) = length items"
  by (induction items arbitrary: k m parent) simp_all

lemma chain_edges_props:
  "e \<in> set (chain_edges c p n) \<Longrightarrow> p < c \<Longrightarrow>
   e_rel e = ''CHILD_OF'' \<and> e_src e < c + n \<and> e_dst e < c + n"
proof (induction n arbitrary: c p)
  case 0
  then show ?case by simp
next
  case (Suc n)
  from Suc.prems(1) have "e = \<lparr>e_src = c, e_rel = ''CHILD_OF'', e_dst = p\<rparr> \<or>
                       e \<in> set (chain_edges (Suc c) c n)"
    by simp
  then show ?case
  proof
    assume "e = \<lparr>e_src = c, e_rel = ''CHILD_OF'', e_dst = p\<rparr>"
    then show ?thesis using Suc.prems(2) by simp
  next
    assume "e \<in> set (chain_edges (Suc c) c n)"
    from Suc.IH[OF this] show ?thesis by simp
  qed
qed

lemma chain_edges_rel:
  "e \<in> set (chain_edges c p n) \<Longrightarrow> e_rel e = ''CHILD_OF''"
  by (induction n arbitrary: c p) auto

lemma turn_ids_append: "turn_ids E m (a + b) = turn_ids E m a @ turn_ids E (m + a) b"
  by (induction a arbitrary: m) simp_all

lemma root_step:
  assumes nodes: "g_nodes g = catalog_nodes c @ T"
    and T: "\<forall>n\<in>set T. n_label n = ''Turn'' \<and> node_id n \<noteq> Some (PStr r)"
    and edge: "\<lparr>e_src = 3, e_rel = ''ROOTS'', e_dst = 4 + length T\<rparr> \<notin> set (g_edges g)"
  shows "apply_stmts E k (root_stmts c r) g =
         \<lparr>g_nodes = g_nodes g @ [root_node r (clock E k)],
          g_edges = g_edges g @ [\<lparr>e_src = 3, e_rel = ''ROOTS'', e_dst = 4 + length T\<rparr>]\<rparr>"
proof -
  have Tl: "\<forall>n\<in>set T. n_label n = ''Turn''" using T by simp
  note o = other_label_simps[OF Tl]
  have noT: "\<forall>n\<in>set T. \<not> node_matches ''Turn'' ((''id'', PStr r) # pat) n" for pat
    using T node_matches_id by blast
  have noall: "\<forall>n\<in>set (g_nodes g). \<not> node_matches ''Turn'' ((''id'', PStr r) # pat) n" for pat
    using noT[of pat] by (auto simp: nodes catalog_nodes_def node_matches_rec)
  have s1: "merge_node ''Turn'' [(''id'', PStr r), (''role'', PStr ''root''), (''ts'', PInt (clock E k))] [] g
            = g\<lparr>g_nodes := g_nodes g @ [root_node r (clock E k)]\<rparr>"
    using merge_node_new[OF noall] by (simp add: root_node_def)
  have per: "match_idx ''Persona'' [(''id'', PStr (persona_name c)), (''seq'', PInt (persona_seq c))]
               (catalog_nodes c @ T @ [root_node r (clock E k)]) = [3]"
    by (simp add: match_idx_def match_from_append o catalog_nodes_def node_matches_rec root_node_def)
  have rt: "match_idx ''Turn'' [(''id'', PStr r), (''role'', PStr ''root'')]
               (catalog_nodes c @ T @ [root_node r (clock E k)]) = [4 + length T]"
    using match_from_none[OF noT]
    by (simp add: match_idx_def match_from_append catalog_nodes_def node_matches_rec root_node_def)
  show ?thesis
    using edge
    by (simp add: root_stmts_def eval_pattern_def s1 merge_rel_def nodes per[simplified] rt[simplified]
        add_edge_def)
qed


lemma rest_on_catalog:
  assumes T: "\<forall>n\<in>set T. n_label n = ''Turn'' \<and>
                (\<forall>t\<in>set (r # turn_ids E m (length items)). node_id n \<noteq> Some (PStr t))"
    and d: "distinct (r # turn_ids E m (length items))"
    and Es: "\<forall>e\<in>set Es. e_src e < 4 + length T \<and> e_dst e < 4 + length T"
    and k2: "k2 = k + 2"
  shows "apply_stmts E k2 (loop_stmts E m items r)
           (apply_stmts E k (root_stmts c r)
              \<lparr>g_nodes = catalog_nodes c @ T, g_edges = catalog_edges @ Es\<rparr>) =
         \<lparr>g_nodes = catalog_nodes c @ T @ [root_node r (clock E k)] @ chain_nodes E k2 m items r,
          g_edges = catalog_edges @ Es @ [\<lparr>e_src = 3, e_rel = ''ROOTS'', e_dst = 4 + length T\<rparr>]
                    @ chain_edges (5 + length T) (4 + length T) (length items)\<rparr>"
proof -
  let ?g = "\<lparr>g_nodes = catalog_nodes c @ T, g_edges = catalog_edges @ Es\<rparr>"
  let ?R = "\<lparr>e_src = 3, e_rel = ''ROOTS'', e_dst = 4 + length T\<rparr>"
  let ?g1 = "\<lparr>g_nodes = catalog_nodes c @ T @ [root_node r (clock E k)],
             g_edges = catalog_edges @ Es @ [?R]\<rparr>"
  have Tr: "\<forall>n\<in>set T. n_label n = ''Turn'' \<and> node_id n \<noteq> Some (PStr r)"
    using T by simp
  have notin: "?R \<notin> set (g_edges ?g)"
    using Es by (auto simp: catalog_edges_def)
  have root: "apply_stmts E k (root_stmts c r) ?g = ?g1"
    using root_step[of ?g c T r E k, OF _ Tr notin] by simp
  have f1: "\<forall>n\<in>set (g_nodes ?g1). n_label n = ''Turn'' \<longrightarrow>
              (\<forall>t\<in>set (turn_ids E m (length items)). node_id n \<noteq> Some (PStr t))"
    using T d by (auto simp: catalog_nodes_def root_node_def node_id_def)
  have f2: "distinct (turn_ids E m (length items))"
    using d by simp
  have Tl: "\<forall>n\<in>set T. n_label n = ''Turn''" using T by simp
  have noT: "\<forall>n\<in>set T. \<not> node_matches ''Turn'' [(''id'', PStr r)] n"
    using Tr node_matches_id by blast
  have f3: "match_idx ''Turn'' [(''id'', PStr r)] (g_nodes ?g1) = [4 + length T]"
    using match_from_none[OF noT]
    by (simp add: match_idx_def match_from_append catalog_nodes_def node_matches_rec root_node_def)
  have f4: "\<forall>e\<in>set (g_edges ?g1). e_src e < length (g_nodes ?g1)"
    using Es by (auto simp: catalog_edges_def catalog_nodes_def)
  have len: "length (g_nodes ?g1) = 5 + length T"
    by (simp add: catalog_nodes_def)
  show ?thesis
    unfolding root chain[OF f1 f2 f3 f4] len by simp
qed


text \<open>
  C1. The same path, holding a script that \<open>validJSON\<close> accepts (whatever the
  validation library converts to an integer), imported twice into an empty store that
  executes every statement, with the two root identifiers and the turn identifiers of both calls pairwise
  distinct: after the second call the store holds exactly one Program, one Module, one
  Day and one Persona node, those of the path; the first call leaves one ROOTS edge and
  the second adds another, both from the Persona (node 3), to two different nodes, which
  are root Turns with the two root identifiers.
\<close>

theorem catalog_idempotent_root_fresh:
  assumes "reachable E" "parse_path p = Inr c" "read_json E p = Inr (PList items)"
    "list_all (record_valid (lax_int E)) items" "\<forall>k. \<not> stmt_fails E k"
    "store w = empty_graph"
    "distinct (str_uuid (uuid1_gen E (Suc (n_uuid1 w))) # str_uuid (uuid1_gen E (n_uuid1 w + 3))
               # turn_ids E (n_uuid4 w) (length items + length items))"
  shows "filter (\<lambda>n. n_label n = ''Program'')
           (g_nodes (store (snd (import_file E p (snd (import_file E p w)))))) =
           [catalog_nodes c ! 0] \<and>
         filter (\<lambda>n. n_label n = ''Module'')
           (g_nodes (store (snd (import_file E p (snd (import_file E p w)))))) =
           [catalog_nodes c ! 1] \<and>
         filter (\<lambda>n. n_label n = ''Day'')
           (g_nodes (store (snd (import_file E p (snd (import_file E p w)))))) =
           [catalog_nodes c ! 2] \<and>
         filter (\<lambda>n. n_label n = ''Persona'')
           (g_nodes (store (snd (import_file E p (snd (import_file E p w)))))) =
           [catalog_nodes c ! 3] \<and>
         filter (\<lambda>e. e_rel e = ''ROOTS'')
           (g_edges (store (snd (import_file E p w)))) =
           [\<lparr>e_src = 3, e_rel = ''ROOTS'', e_dst = 4\<rparr>] \<and>
         filter (\<lambda>e. e_rel e = ''ROOTS'')
           (g_edges (store (snd (import_file E p (snd (import_file E p w)))))) =
           [\<lparr>e_src = 3, e_rel = ''ROOTS'', e_dst = 4\<rparr>,
            \<lparr>e_src = 3, e_rel = ''ROOTS'', e_dst = 5 + length items\<rparr>] \<and>
         g_nodes (store (snd (import_file E p (snd (import_file E p w))))) ! 3 = catalog_nodes c ! 3 \<and>
         g_nodes (store (snd (import_file E p (snd (import_file E p w))))) ! 4 =
           root_node (str_uuid (uuid1_gen E (Suc (n_uuid1 w)))) (clock E (length (issued w) + 7)) \<and>
         g_nodes (store (snd (import_file E p (snd (import_file E p w))))) ! (5 + length items) =
           root_node (str_uuid (uuid1_gen E (n_uuid1 w + 3)))
             (clock E (length (issued w) + 16 + 2 * length items))"
proof -
  let ?N = "length items"
  let ?k = "length (issued w)"
  let ?m = "n_uuid4 w"
  let ?r1 = "str_uuid (uuid1_gen E (Suc (n_uuid1 w)))"
  let ?r2 = "str_uuid (uuid1_gen E (n_uuid1 w + 3))"
  let ?w1 = "snd (import_file E p w)"
  let ?w2 = "snd (import_file E p ?w1)"
  let ?root1 = "root_node ?r1 (clock E (?k + 7))"
  let ?chain1 = "chain_nodes E (?k + 9) ?m items ?r1"
  let ?R1 = "\<lparr>e_src = 3, e_rel = ''ROOTS'', e_dst = 4\<rparr>"
  let ?ce1 = "chain_edges 5 4 ?N"
  note sa = store_after_import[OF assms(1-5)]
  have ids: "turn_ids E ?m (?N + ?N) = turn_ids E ?m ?N @ turn_ids E (?m + ?N) ?N"
    by (rule turn_ids_append)
  have d: "distinct (?r1 # ?r2 # turn_ids E ?m ?N @ turn_ids E (?m + ?N) ?N)"
    using assms(7) unfolding ids .
  have nine: "?k + 7 + 2 = ?k + 9" by simp
  \<comment> \<open>the first call\<close>
  have d1: "distinct (?r1 # turn_ids E ?m ?N)" using d by simp
  have first: "store ?w1 = \<lparr>g_nodes = catalog_nodes c @ [?root1] @ ?chain1,
                             g_edges = catalog_edges @ [?R1] @ ?ce1\<rparr>"
    using rest_on_catalog[of "[]" ?r1 E ?m items "[]" "?k + 9" "?k + 7" c, OF _ d1]
    unfolding sa(1)[of w] assms(6) catalog_from_empty
    by simp
  \<comment> \<open>the second call\<close>
  let ?T = "[?root1] @ ?chain1"
  let ?Es = "[?R1] @ ?ce1"
  let ?k1 = "length (issued ?w1)"
  have k1: "?k1 = ?k + 9 + 2 * ?N" by (rule sa(2))
  have u1: "n_uuid1 ?w1 = n_uuid1 w + 2" by (rule sa(3))
  have m1: "n_uuid4 ?w1 = ?m + ?N" by (rule sa(4))
  have lenT: "length ?T = Suc ?N" by (simp add: length_chain_nodes)
  have T: "\<forall>n\<in>set ?T. n_label n = ''Turn'' \<and>
             (\<forall>t\<in>set (?r2 # turn_ids E (?m + ?N) ?N). node_id n \<noteq> Some (PStr t))"
  proof
    fix n assume n: "n \<in> set ?T"
    show "n_label n = ''Turn'' \<and> (\<forall>t\<in>set (?r2 # turn_ids E (?m + ?N) ?N). node_id n \<noteq> Some (PStr t))"
    proof (cases "n = ?root1")
      case True
      then show ?thesis using d by (auto simp: root_node_def node_id_def)
    next
      case False
      then have c: "n \<in> set ?chain1" using n by simp
      obtain t where t: "t \<in> set (turn_ids E ?m ?N)" "node_id n = Some (PStr t)"
        using chain_nodes_id[OF c] by blast
      show ?thesis
        using chain_nodes_label[OF c] t d by auto
    qed
  qed
  have d2: "distinct (?r2 # turn_ids E (?m + ?N) ?N)" using d by simp
  have Es: "\<forall>e\<in>set ?Es. e_src e < 4 + length ?T \<and> e_dst e < 4 + length ?T"
  proof
    fix e assume "e \<in> set ?Es"
    then have "e = ?R1 \<or> e \<in> set ?ce1" by simp
    then show "e_src e < 4 + length ?T \<and> e_dst e < 4 + length ?T"
    proof
      assume "e = ?R1" then show ?thesis by (simp add: length_chain_nodes)
    next
      assume "e \<in> set ?ce1"
      from chain_edges_props[OF this] show ?thesis by (simp add: length_chain_nodes)
    qed
  qed
  have Tl: "\<forall>n\<in>set ?T. n_label n = ''Turn''" using T by blast
  have seven: "?k1 + 7 + 2 = ?k1 + 9" by simp
  let ?root2 = "root_node ?r2 (clock E (?k1 + 7))"
  let ?chain2 = "chain_nodes E (?k1 + 9) (?m + ?N) items ?r2"
  let ?R2 = "\<lparr>e_src = 3, e_rel = ''ROOTS'', e_dst = 4 + length ?T\<rparr>"
  let ?ce2 = "chain_edges (5 + length ?T) (4 + length ?T) ?N"
  have r2: "str_uuid (uuid1_gen E (Suc (n_uuid1 ?w1))) = ?r2"
    by (simp add: u1 numeral_3_eq_3)
  have second: "store ?w2 = \<lparr>g_nodes = catalog_nodes c @ ?T @ [?root2] @ ?chain2,
                              g_edges = catalog_edges @ ?Es @ [?R2] @ ?ce2\<rparr>"
    using rest_on_catalog[of ?T ?r2 E "?m + ?N" items ?Es "?k1 + 9" "?k1 + 7" c, OF T d2 Es]
    unfolding sa(1)[of ?w1] first catalog_idempotent[OF Tl] r2 m1
    by simp
  \<comment> \<open>what the store holds\<close>
  have fl: "filter (\<lambda>n. n_label n = l) (chain_nodes E k' m' its r') = []"
    if "l \<noteq> ''Turn''" for l k' m' its r'
    using that chain_nodes_label[of _ E k' m' its r'] by (auto simp: filter_empty_conv)
  have rel: "filter (\<lambda>e. e_rel e = ''ROOTS'') (chain_edges a b n) = []" for a b n
    using chain_edges_rel[of _ a b n] by (auto simp: filter_empty_conv)
  have nodes2: "g_nodes (store ?w2) = catalog_nodes c @ ?root1 # ?chain1 @ ?root2 # ?chain2"
    unfolding second by simp
  have edges2: "g_edges (store ?w2) =
      catalog_edges @ ?R1 # ?ce1 @ \<lparr>e_src = 3, e_rel = ''ROOTS'', e_dst = 5 + ?N\<rparr>
        # chain_edges (6 + ?N) (5 + ?N) ?N"
    unfolding second by (simp add: length_chain_nodes)
  have edges1: "g_edges (store ?w1) = catalog_edges @ ?R1 # ?ce1"
    unfolding first by simp
  have P: "filter (\<lambda>n. n_label n = ''Program'') (g_nodes (store ?w2)) = [catalog_nodes c ! 0]"
    unfolding nodes2 by (simp add: fl catalog_nodes_def root_node_def)
  have M: "filter (\<lambda>n. n_label n = ''Module'') (g_nodes (store ?w2)) = [catalog_nodes c ! 1]"
    unfolding nodes2 by (simp add: fl catalog_nodes_def root_node_def)
  have D: "filter (\<lambda>n. n_label n = ''Day'') (g_nodes (store ?w2)) = [catalog_nodes c ! 2]"
    unfolding nodes2 by (simp add: fl catalog_nodes_def root_node_def)
  have Pe: "filter (\<lambda>n. n_label n = ''Persona'') (g_nodes (store ?w2)) = [catalog_nodes c ! 3]"
    unfolding nodes2 by (simp add: fl catalog_nodes_def root_node_def)
  have e1: "filter (\<lambda>e. e_rel e = ''ROOTS'') (g_edges (store ?w1)) = [?R1]"
    unfolding edges1 by (simp add: rel catalog_edges_def)
  have e2: "filter (\<lambda>e. e_rel e = ''ROOTS'') (g_edges (store ?w2)) =
              [?R1, \<lparr>e_src = 3, e_rel = ''ROOTS'', e_dst = 5 + ?N\<rparr>]"
    unfolding edges2 by (simp add: rel catalog_edges_def)
  have g3: "g_nodes (store ?w2) ! 3 = catalog_nodes c ! 3"
    unfolding nodes2 by (simp add: catalog_nodes_def)
  have g4: "g_nodes (store ?w2) ! 4 = ?root1"
    unfolding nodes2 by (simp add: catalog_nodes_def)
  have ts: "?k1 + 7 = ?k + 16 + 2 * ?N" using k1 by simp
  have "(catalog_nodes c @ ?root1 # ?chain1 @ ?root2 # ?chain2) ! (5 + length ?chain1) = ?root2"
    by (simp add: catalog_nodes_def)
  then have g5: "g_nodes (store ?w2) ! (5 + ?N) = root_node ?r2 (clock E (?k + 16 + 2 * ?N))"
    unfolding nodes2 length_chain_nodes ts .
  show ?thesis
    using P M D Pe e1 e2 g3 g4 g5 by blast
qed


theorem catalog_idempotent_root_fresh_witness:
  "length (filter (\<lambda>n. n_label n = ''Program'')
     (g_nodes (store (snd (import_file (demo_env (PList two_turns)) therapy_path
        (snd (import_file (demo_env (PList two_turns)) therapy_path world0))))))) = 1 \<and>
   length (filter (\<lambda>n. n_label n = ''Persona'')
     (g_nodes (store (snd (import_file (demo_env (PList two_turns)) therapy_path
        (snd (import_file (demo_env (PList two_turns)) therapy_path world0))))))) = 1 \<and>
   filter (\<lambda>e. e_rel e = ''ROOTS'')
     (g_edges (store (snd (import_file (demo_env (PList two_turns)) therapy_path
        (snd (import_file (demo_env (PList two_turns)) therapy_path world0)))))) =
     [\<lparr>e_src = 3, e_rel = ''ROOTS'', e_dst = 4\<rparr>, \<lparr>e_src = 3, e_rel = ''ROOTS'', e_dst = 7\<rparr>]"
proof -
  let ?E = "demo_env (PList two_turns)"
  have len: "length two_turns = 2"
    by (simp add: two_turns_def)
  have "distinct (str_uuid (uuid1_gen ?E (Suc (n_uuid1 world0)))
                  # str_uuid (uuid1_gen ?E (n_uuid1 world0 + 3))
                  # turn_ids ?E (n_uuid4 world0) 4)"
    by code_simp
  then have ids: "distinct (str_uuid (uuid1_gen ?E (Suc (n_uuid1 world0)))
                  # str_uuid (uuid1_gen ?E (n_uuid1 world0 + 3))
                  # turn_ids ?E (n_uuid4 world0) (length two_turns + length two_turns))"
    by (simp only: len) simp
  note r = catalog_idempotent_root_fresh[OF demo_env_simps(1) parse_path_therapy
      demo_env_simps(3) two_turns_valid demo_env_simps(2) world0_simps(1) ids]
  show ?thesis
    using r by (simp add: len)
qed

section \<open>Release inside the try block\<close>

lemma run_resources:
  "run E s w = (r, w') \<Longrightarrow>
   sessions_open w' = sessions_open w \<and> drivers_open w' = drivers_open w"
  by (auto simp: run_def split: if_splits)

lemma run_all_resources:
  "run_all E ss w = (r, w') \<Longrightarrow>
   sessions_open w' = sessions_open w \<and> drivers_open w' = drivers_open w"
proof (induction ss arbitrary: w)
  case Nil
  then show ?case by simp
next
  case (Cons s ss)
  obtain r1 w1 where r1: "run E s w = (r1, w1)" by (cases "run E s w")
  show ?case
    using Cons.prems r1 run_resources[OF r1] Cons.IH[of w1]
    by (cases r1) auto
qed

lemma insert_turns_resources:
  "insert_turns E items parent w = (r, w') \<Longrightarrow>
   sessions_open w' = sessions_open w \<and> drivers_open w' = drivers_open w"
proof (induction items arbitrary: parent w)
  case Nil
  then show ?case by simp
next
  case (Cons x xs)
  show ?case
    using Cons.prems
    by (auto simp: Let_def split: sum.splits prod.splits
        dest!: run_all_resources Cons.IH)
qed

lemma try_body_resources:
  "try_body E c uuid2 items w = (r, w') \<Longrightarrow>
   sessions_open w' = sessions_open w \<and> drivers_open w' = drivers_open w"
  by (auto simp: try_body_def split: sum.splits prod.splits
      dest!: run_all_resources insert_turns_resources)

text \<open>
  Once the path and the records have passed validation, the \<open>try ... finally\<close> releases
  what the call acquired: whether the statements succeed or the store rejects one, the
  call ends with as many sessions and drivers open as it started with.
\<close>

theorem released_after_validation:
  assumes "reachable E" "parse_path p = Inr c" "read_json E p = Inr script"
    "py_iter script = Inr items" "validate_items (lax_int E) items = Inr ()"
  shows "sessions_open (snd (import_file E p w)) = sessions_open w \<and>
         drivers_open (snd (import_file E p w)) = drivers_open w"
proof -
  let ?w2 = "w\<lparr>drivers_open := Suc (drivers_open w), sessions_open := Suc (sessions_open w),
               n_uuid1 := n_uuid1 w + 2,
              uuid1_drawn_at := uuid1_drawn_at w @ [length (issued w), length (issued w)]\<rparr>"
  let ?u = "str_uuid (uuid1_gen E (Suc (n_uuid1 w)))"
  obtain r w3 where tb: "try_body E c ?u items ?w2 = (r, w3)"
    by (cases "try_body E c ?u items ?w2")
  have "snd (import_file E p w) = close_all w3"
    using assms tb by (cases r) (simp_all add: import_file_def start_neo4j_session_def Let_def)
  then show ?thesis
    using try_body_resources[OF tb] by (simp add: close_all_def)
qed

theorem released_after_validation_witness:
  "fst (import_file failing_env therapy_path world0) = Inl GraphStoreError \<and>
   sessions_open (snd (import_file failing_env therapy_path world0)) = 0 \<and>
   drivers_open (snd (import_file failing_env therapy_path world0)) = 0"
proof -
  have h1: "reachable failing_env" by (simp add: failing_env_def demo_env_def)
  have h3: "read_json failing_env therapy_path = Inr (PList two_turns)"
    by (simp add: failing_env_def demo_env_def)
  have h4: "py_iter (PList two_turns) = Inr two_turns" by (simp add: py_iter_def)
  have h5: "validate_items (lax_int failing_env) two_turns = Inr ()"
    using two_turns_valid by (simp add: validate_items_Inr)
  have f: "fst (import_file failing_env therapy_path world0) = Inl GraphStoreError"
    by code_simp
  show ?thesis
    using released_after_validation[OF h1 parse_path_therapy h3 h4 h5, of world0] f
    by (simp add: world0_simps)
qed

end
